theory Spec2Isabelle
  imports Main "HOL-Library.Sublist"
begin

section \<open>Python strings\<close>

text \<open>
  A Python \<^verbatim>\<open>str\<close> is a sequence of Unicode code points, so it is modelled as a list of
  integers (one element per code point, which is what \<^verbatim>\<open>in\<close>, \<^verbatim>\<open>replace\<close> and
  \<^verbatim>\<open>strip\<close> work on). String literals of the source are written as their code points.
\<close>

type_synonym pystr = "int list"

text \<open>\<^verbatim>\<open>sub in s\<close>: does \<open>sub\<close> occur as a contiguous substring of \<open>s\<close>.\<close>

fun contains :: "'a list \<Rightarrow> 'a list \<Rightarrow> bool" where
  "contains sub [] = (sub = [])"
| "contains sub (c # cs) = (prefix sub (c # cs) \<or> contains sub cs)"

text \<open>
  \<^verbatim>\<open>s.replace(old, new)\<close>: every occurrence of \<open>old\<close>, found scanning from the left and
  never overlapping the previous one, is replaced by \<open>new\<close>; the inserted text is not
  scanned again. \<open>replace_scan\<close> is the scan for a non-empty \<open>old\<close>; for an empty
  \<open>old\<close> Python inserts \<open>new\<close> before every character and at the end.
\<close>

fun replace_scan :: "'a list \<Rightarrow> 'a list \<Rightarrow> 'a list \<Rightarrow> 'a list" where
  "replace_scan old new [] = []"
| "replace_scan old new (c # cs) =
     (if prefix old (c # cs)
      then new @ replace_scan old new (drop (length old - 1) cs)
      else c # replace_scan old new cs)"

definition str_replace :: "'a list \<Rightarrow> 'a list \<Rightarrow> 'a list \<Rightarrow> 'a list" where
  "str_replace s old new =
     (if old = [] then new @ concat (map (\<lambda>c. c # new) s) else replace_scan old new s)"

text \<open>
  \<^verbatim>\<open>str.isspace\<close> on one code point: the Unicode white-space characters
  (U+0009..U+000D, U+001C..U+0020, U+0085, U+00A0, U+1680, U+2000..U+200A, U+2028, U+2029,
  U+202F, U+205F, U+3000). \<^verbatim>\<open>s.strip()\<close> removes them from both ends.
\<close>

definition isspace :: "int \<Rightarrow> bool" where
  "isspace c =
     ((9 \<le> c \<and> c \<le> 13) \<or> (28 \<le> c \<and> c \<le> 32) \<or> c = 133 \<or> c = 160 \<or> c = 5760 \<or>
      (8192 \<le> c \<and> c \<le> 8202) \<or> c = 8232 \<or> c = 8233 \<or> c = 8239 \<or> c = 8287 \<or> c = 12288)"

definition lstrip :: "pystr \<Rightarrow> pystr" where
  "lstrip s = dropWhile isspace s"

definition rstrip :: "pystr \<Rightarrow> pystr" where
  "rstrip s = rev (dropWhile isspace (rev s))"

definition strip :: "pystr \<Rightarrow> pystr" where
  "strip s = rstrip (lstrip s)"

section \<open>Dates\<close>

text \<open>
  The program only builds \<^verbatim>\<open>datetime\<close> values at midnight and only reads their calendar
  part, so a \<^verbatim>\<open>datetime\<close> is its year, month and day. The functions below follow the
  pure-Python \<^verbatim>\<open>datetime\<close> module of the standard library: the constructor's range
  checks, the proleptic Gregorian ordinal, \<^verbatim>\<open>weekday()\<close> (Monday is 0) and the addition
  of a \<^verbatim>\<open>timedelta\<close> of whole days.
\<close>

datatype error = ValueError | OverflowError | IndexError | KeyError | OSError

record datetime =
  year :: int
  month :: int
  day :: int

definition is_leap :: "int \<Rightarrow> bool" where
  "is_leap y = (y mod 4 = 0 \<and> (if y mod 100 = 0 then y mod 400 = 0 else True))"

definition DAYS_IN_MONTH :: "int list" where
  "DAYS_IN_MONTH = [-1, 31, 28, 31, 30, 31, 30, 31, 31, 30, 31, 30, 31]"

definition DAYS_BEFORE_MONTH :: "int list" where
  "DAYS_BEFORE_MONTH = [-1, 0, 31, 59, 90, 120, 151, 181, 212, 243, 273, 304, 334]"

definition days_in_month :: "int \<Rightarrow> int \<Rightarrow> int" where
  "days_in_month y m = (if m = 2 \<and> is_leap y then 29 else DAYS_IN_MONTH ! nat m)"

definition days_before_year :: "int \<Rightarrow> int" where
  "days_before_year y' = (let y = y' - 1 in y * 365 + y div 4 - y div 100 + y div 400)"

definition days_before_month :: "int \<Rightarrow> int \<Rightarrow> int" where
  "days_before_month y m = DAYS_BEFORE_MONTH ! nat m + (if m > 2 \<and> is_leap y then 1 else 0)"

definition ymd2ord :: "int \<Rightarrow> int \<Rightarrow> int \<Rightarrow> int" where
  "ymd2ord y m d = days_before_year y + days_before_month y m + d"

text \<open>\<^verbatim>\<open>datetime(y, m, d)\<close> raises \<^verbatim>\<open>ValueError\<close> when a field is out of range.\<close>

definition datetime_new :: "int \<Rightarrow> int \<Rightarrow> int \<Rightarrow> error + datetime" where
  "datetime_new y m d =
     (if 1 \<le> y \<and> y \<le> 9999 \<and> 1 \<le> m \<and> m \<le> 12 \<and> 1 \<le> d \<and> d \<le> days_in_month y m
      then Inr \<lparr>year = y, month = m, day = d\<rparr>
      else Inl ValueError)"

definition toordinal :: "datetime \<Rightarrow> int" where
  "toordinal dt = ymd2ord (year dt) (month dt) (day dt)"

definition weekday :: "datetime \<Rightarrow> int" where
  "weekday dt = (toordinal dt + 6) mod 7"

text \<open>The inverse of \<open>ymd2ord\<close>, as the library computes it (400-, 100-, 4- and 1-year cycles).\<close>

definition ord2ymd :: "int \<Rightarrow> datetime" where
  "ord2ymd n0 =
     (let n = n0 - 1;
          n400 = n div 146097; n = n mod 146097;
          n100 = n div 36524; n = n mod 36524;
          n4 = n div 1461; n = n mod 1461;
          n1 = n div 365; n = n mod 365;
          y = n400 * 400 + 1 + n100 * 100 + n4 * 4 + n1
      in if n1 = 4 \<or> n100 = 4 then \<lparr>year = y - 1, month = 12, day = 31\<rparr>
         else
           let leapyear = (n1 = 3 \<and> (if n4 = 24 then n100 = 3 else True));
               m = (n + 50) div 32;
               preceding = DAYS_BEFORE_MONTH ! nat m + (if m > 2 \<and> leapyear then 1 else 0)
           in if preceding > n
              then \<lparr>year = y, month = m - 1,
                     day = n - (preceding - (DAYS_IN_MONTH ! nat (m - 1)
                                  + (if m - 1 = 2 \<and> leapyear then 1 else 0))) + 1\<rparr>
              else \<lparr>year = y, month = m, day = n - preceding + 1\<rparr>)"

text \<open>
  \<^verbatim>\<open>dt + timedelta(days=n)\<close>: the date \<open>n\<close> days later, \<^verbatim>\<open>OverflowError\<close> outside the
  years 1..9999 (ordinals 1..3652059).
\<close>

definition add_days :: "datetime \<Rightarrow> int \<Rightarrow> error + datetime" where
  "add_days dt n =
     (let days = toordinal dt + n
      in if 0 < days \<and> days \<le> 3652059 then Inr (ord2ymd days) else Inl OverflowError)"

text \<open>
  \<^verbatim>\<open>dt.strftime('%Y\<dots>%m\<dots>%d\<dots>')\<close> with the literals U+5E74 (year), U+6708 (month) and
  U+65E5 (day) after the fields: \<^verbatim>\<open>%Y\<close> is the year in four decimal digits (the padding
  of years below 1000 varies with the C library; the program formats dates of 2025 only),
  \<^verbatim>\<open>%m\<close> and \<^verbatim>\<open>%d\<close> are two digits, zero padded. The digit \<open>k\<close> is the code point
  \<open>48 + k\<close>.
\<close>

definition digit :: "int \<Rightarrow> int" where
  "digit k = 48 + k"

definition two_digits :: "int \<Rightarrow> pystr" where
  "two_digits v = [digit (v div 10 mod 10), digit (v mod 10)]"

definition four_digits :: "int \<Rightarrow> pystr" where
  "four_digits v = two_digits (v div 100) @ two_digits v"

definition strftime_ymd :: "datetime \<Rightarrow> pystr" where
  "strftime_ymd dt =
     four_digits (year dt) @ [24180] @ two_digits (month dt) @ [26376]
       @ two_digits (day dt) @ [26085]"

section \<open>Business days: \<^verbatim>\<open>get_workdays\<close>\<close>

text \<open>
  The first loop runs \<^verbatim>\<open>i\<close> over \<^verbatim>\<open>range(15)\<close> and adds \<^verbatim>\<open>i\<close> days to 1 July 2025; an
  error of the addition is not caught. The second loop runs \<^verbatim>\<open>i\<close> over
  \<^verbatim>\<open>range(16, 32)\<close>, builds \<^verbatim>\<open>datetime(2025, 7, i)\<close> and leaves the loop at the first
  \<^verbatim>\<open>ValueError\<close> (the only error the constructor raises). Both append the dates whose
  \<^verbatim>\<open>weekday()\<close> is below 5.
\<close>

fun first_half_loop :: "datetime \<Rightarrow> int list \<Rightarrow> datetime list \<Rightarrow> error + datetime list" where
  "first_half_loop start_date [] first_half_workdays = Inr first_half_workdays"
| "first_half_loop start_date (i # rest) first_half_workdays =
     (case add_days start_date i of
        Inl e \<Rightarrow> Inl e
      | Inr current_date \<Rightarrow>
          first_half_loop start_date rest
            (if weekday current_date < 5 then first_half_workdays @ [current_date]
             else first_half_workdays))"

fun second_half_loop :: "int list \<Rightarrow> datetime list \<Rightarrow> datetime list" where
  "second_half_loop [] second_half_workdays = second_half_workdays"
| "second_half_loop (i # rest) second_half_workdays =
     (case datetime_new 2025 7 i of
        Inl e \<Rightarrow> second_half_workdays
      | Inr current_date \<Rightarrow>
          second_half_loop rest
            (if weekday current_date < 5 then second_half_workdays @ [current_date]
             else second_half_workdays))"

definition get_workdays :: "error + (datetime list \<times> datetime list)" where
  "get_workdays =
     (case datetime_new 2025 7 1 of
        Inl e \<Rightarrow> Inl e
      | Inr start_date \<Rightarrow>
          (case first_half_loop start_date [0..14] [] of
             Inl e \<Rightarrow> Inl e
           | Inr first_half_workdays \<Rightarrow>
               Inr (first_half_workdays, second_half_loop [16..31] [])))"

text \<open>
  What the specification calls the days of a month and its business days: the dates
  \<open>lo..hi\<close> of month \<open>m\<close> of year \<open>y\<close>, and those of them that fall on Monday to Friday.
\<close>

definition month_days :: "int \<Rightarrow> int \<Rightarrow> int \<Rightarrow> int \<Rightarrow> datetime list" where
  "month_days y m lo hi = map (\<lambda>d. \<lparr>year = y, month = m, day = d\<rparr>) [lo..hi]"

definition is_business_day :: "datetime \<Rightarrow> bool" where
  "is_business_day dt = (weekday dt = 0 \<or> weekday dt = 1 \<or> weekday dt = 2 \<or> weekday dt = 3
                          \<or> weekday dt = 4)"

definition is_weekend :: "datetime \<Rightarrow> bool" where
  "is_weekend dt = (weekday dt = 5 \<or> weekday dt = 6)"

definition chronological :: "datetime list \<Rightarrow> bool" where
  "chronological ds = sorted_wrt (\<lambda>a b. toordinal a < toordinal b) ds"

section \<open>Documents\<close>

text \<open>
  The part of python-docx the program uses. A document is the list of its body paragraphs
  (\<^verbatim>\<open>doc.paragraphs\<close>); a paragraph has paragraph-level properties (its style stands
  for them) and a list of runs; a run has a text and a font. \<^verbatim>\<open>font.name\<close>,
  \<^verbatim>\<open>font.size\<close> and the \<^verbatim>\<open>w:eastAsia\<close> attribute of \<^verbatim>\<open>rFonts\<close> are the attributes
  the program writes; \<open>bold\<close> stands for the run formatting it never writes. An attribute
  that is not set is \<open>None\<close>. A length is a number of English Metric Units, 12700 to the
  point. Content of a paragraph other than runs (a hyperlink, for instance) is left out,
  and every text is taken to be one the document format can hold.
\<close>

record font =
  font_name :: "pystr option"
  font_size :: "int option"
  east_asia :: "pystr option"
  bold :: "bool option"

record run =
  run_text :: pystr
  run_font :: font

record Paragraph =
  style :: pystr
  runs :: "run list"

type_synonym document = "Paragraph list"

definition Pt :: "int \<Rightarrow> int" where
  "Pt points = points * 12700"

definition plain_font :: font where
  "plain_font = \<lparr>font_name = None, font_size = None, east_asia = None, bold = None\<rparr>"

text \<open>Reading \<^verbatim>\<open>para.text\<close>: the texts of the runs, concatenated.\<close>

definition para_text :: "Paragraph \<Rightarrow> pystr" where
  "para_text para = concat (map run_text (runs para))"

text \<open>
  Assigning \<^verbatim>\<open>para.text\<close>: the content of the paragraph is removed and one new run, with
  no formatting of its own, receives the text; paragraph-level properties stay. In the
  run a carriage return is stored as a line break, like a line feed, so it reads back as
  a line feed (code point 13 becomes 10).
\<close>

definition stored_text :: "pystr \<Rightarrow> pystr" where
  "stored_text s = map (\<lambda>c. if c = 13 then 10 else c) s"

definition para_set_text :: "Paragraph \<Rightarrow> pystr \<Rightarrow> Paragraph" where
  "para_set_text para s =
     para\<lparr>runs := [\<lparr>run_text = stored_text s, run_font = plain_font\<rparr>]\<rparr>"

section \<open>Filling the template: \<^verbatim>\<open>replace_placeholders\<close>\<close>

text \<open>
  The three entries of \<^verbatim>\<open>target_texts\<close>, as code points: the identity block (four
  asterisks, the male/female choice, the school, five asterisks for the major, the class
  of 2025 and six asterisks for the identity number in full-width parentheses), the join
  date (asterisks before each of U+5E74, U+6708, U+65E5) and the issue date (the same
  three characters separated by three spaces).
\<close>

definition target_texts :: "pystr list" where
  "target_texts =
     [[42, 42, 42, 42, 65292, 30007, 47, 22899, 65292, 31995, 28246, 21335, 29702, 24037,
       23398, 38498, 20449, 24687, 31185, 23398, 19982, 24037, 31243, 23398, 38498,
       42, 42, 42, 42, 42, 19987, 19994, 50, 48, 50, 53, 23626, 27605, 19994, 29983, 65288,
       36523, 20221, 35777, 21495, 65306, 42, 42, 42, 42, 42, 42, 65289],
      [42, 42, 24180, 42, 42, 26376, 42, 42, 26085],
      [24180, 32, 32, 32, 26376, 32, 32, 32, 26085]]"

text \<open>
  The f-string of the identity sentence: name, a full-width comma, gender, the school,
  major, the class of 2025 and the label of the identity number, the identity number, a
  closing full-width parenthesis.
\<close>

definition new_text :: "pystr \<Rightarrow> pystr \<Rightarrow> pystr \<Rightarrow> pystr \<Rightarrow> pystr" where
  "new_text name gender major id_card =
     name @ [65292] @ gender
       @ [65292, 31995, 28246, 21335, 29702, 24037, 23398, 38498, 20449, 24687, 31185,
          23398, 19982, 24037, 31243, 23398, 38498]
       @ major
       @ [19987, 19994, 50, 48, 50, 53, 23626, 27605, 19994, 29983, 65288, 36523, 20221,
          35777, 21495, 65306]
       @ id_card @ [65289]"

text \<open>The font family the program sets, U+5B8B U+4F53.\<close>

definition songti :: pystr where
  "songti = [23435, 20307]"

definition set_run_font :: "run \<Rightarrow> run" where
  "set_run_font r =
     r\<lparr>run_font := (run_font r)\<lparr>font_name := Some songti, font_size := Some (Pt 16),
                                  east_asia := Some songti\<rparr>\<rparr>"

text \<open>One \<^verbatim>\<open>if marker in para.text: para.text = para.text.replace(marker, new)\<close>.\<close>

definition replace_in_para :: "pystr \<Rightarrow> pystr \<Rightarrow> Paragraph \<Rightarrow> Paragraph" where
  "replace_in_para marker new para =
     (if contains marker (para_text para)
      then para_set_text para (str_replace (para_text para) marker new)
      else para)"

text \<open>The body of the loop over the paragraphs.\<close>

definition fill_paragraph ::
  "pystr \<Rightarrow> pystr \<Rightarrow> pystr \<Rightarrow> pystr \<Rightarrow> datetime \<Rightarrow> datetime \<Rightarrow> Paragraph \<Rightarrow> Paragraph" where
  "fill_paragraph name gender id_card major join_date issue_date para =
     (if list_ex (\<lambda>text. contains text (para_text para)) target_texts
      then
        let para = replace_in_para (target_texts ! 0) (new_text name gender major id_card) para;
            para = replace_in_para (target_texts ! 1) (strftime_ymd join_date) para;
            para = replace_in_para (target_texts ! 2) (strftime_ymd issue_date) para
        in para\<lparr>runs := map set_run_font (runs para)\<rparr>
      else para)"

definition replace_placeholders ::
  "document \<Rightarrow> pystr \<Rightarrow> pystr \<Rightarrow> pystr \<Rightarrow> pystr \<Rightarrow> datetime \<Rightarrow> datetime \<Rightarrow> document" where
  "replace_placeholders doc name gender id_card major join_date issue_date =
     map (fill_paragraph name gender id_card major join_date issue_date) doc"

section \<open>The roster: \<^verbatim>\<open>read_name_list\<close>\<close>

text \<open>
  The file is opened in text mode, so its decoded content goes through the universal
  newline translation (a carriage return, with the line feed after it if there is one,
  becomes one line feed) and iterating over the file yields the lines, each with its
  terminating line feed; the last one has none when the content does not end with one.
  The argument of \<open>read_name_list\<close> is the decoded content of the file.
\<close>

fun universal_newlines :: "pystr \<Rightarrow> pystr" where
  "universal_newlines [] = []"
| "universal_newlines [c] = [if c = 13 then 10 else c]"
| "universal_newlines (c # d # cs) =
     (if c = 13 \<and> d = 10 then 10 # universal_newlines cs
      else if c = 13 then 10 # universal_newlines (d # cs)
      else c # universal_newlines (d # cs))"

fun file_lines :: "pystr \<Rightarrow> pystr \<Rightarrow> pystr list" where
  "file_lines line [] = (if line = [] then [] else [line])"
| "file_lines line (c # cs) =
     (if c = 10 then (line @ [c]) # file_lines [] cs else file_lines (line @ [c]) cs)"

definition read_name_list :: "pystr \<Rightarrow> pystr list" where
  "read_name_list content =
     [strip line. line \<leftarrow> file_lines [] (universal_newlines content), strip line \<noteq> []]"

text \<open>
  The lines of a text as the specification speaks of them: the pieces between line
  terminators (line feed, carriage return, or the two together), terminators left out.
\<close>

fun text_lines :: "pystr \<Rightarrow> pystr \<Rightarrow> pystr list" where
  "text_lines line [] = [line]"
| "text_lines line [c] = (if c = 10 \<or> c = 13 then [line, []] else [line @ [c]])"
| "text_lines line (c # d # cs) =
     (if c = 13 \<and> d = 10 then line # text_lines [] cs
      else if c = 10 \<or> c = 13 then line # text_lines [] (d # cs)
      else text_lines (line @ [c]) (d # cs))"

section \<open>The student directory: \<^verbatim>\<open>read_student_info\<close>\<close>

text \<open>
  A row of the data frame maps column labels to cells; reading a column the row does not
  have raises \<^verbatim>\<open>KeyError\<close>. Cells are texts. The argument of \<open>read_student_info\<close>
  is the list of rows that \<^verbatim>\<open>read_excel\<close> returned. The dictionary stored for a
  student is a record of its three entries. The column labels are U+59D3 U+540D (name),
  U+6027 U+522B (gender), U+8EAB U+4EFD U+8BC1 U+53F7 (identity number) and U+4E13 U+4E1A
  (major).
\<close>

type_synonym row = "pystr \<rightharpoonup> pystr"

record info =
  info_gender :: pystr
  info_id_card :: pystr
  info_major :: pystr

definition row_get :: "row \<Rightarrow> pystr \<Rightarrow> error + pystr" where
  "row_get r label = (case r label of None \<Rightarrow> Inl KeyError | Some v \<Rightarrow> Inr v)"

definition col_name :: pystr where
  "col_name = [22995, 21517]"

definition col_gender :: pystr where
  "col_gender = [24615, 21035]"

definition col_id_card :: pystr where
  "col_id_card = [36523, 20221, 35777, 21495]"

definition col_major :: pystr where
  "col_major = [19987, 19994]"

fun read_rows :: "(pystr \<rightharpoonup> info) \<Rightarrow> row list \<Rightarrow> error + (pystr \<rightharpoonup> info)" where
  "read_rows student_info [] = Inr student_info"
| "read_rows student_info (r # rest) =
     (case row_get r col_name of
        Inl e \<Rightarrow> Inl e
      | Inr name \<Rightarrow>
     (case row_get r col_gender of
        Inl e \<Rightarrow> Inl e
      | Inr g \<Rightarrow>
     (case row_get r col_id_card of
        Inl e \<Rightarrow> Inl e
      | Inr i \<Rightarrow>
     (case row_get r col_major of
        Inl e \<Rightarrow> Inl e
      | Inr m \<Rightarrow>
          read_rows
            (student_info(name \<mapsto> \<lparr>info_gender = g, info_id_card = i, info_major = m\<rparr>))
            rest))))"

definition read_student_info :: "row list \<Rightarrow> error + (pystr \<rightharpoonup> info)" where
  "read_student_info df = read_rows Map.empty df"

text \<open>The record a row holds, for the rows that have the three columns.\<close>

definition row_info :: "row \<Rightarrow> info" where
  "row_info r =
     \<lparr>info_gender = the (r col_gender), info_id_card = the (r col_id_card),
      info_major = the (r col_major)\<rparr>"

definition has_columns :: "row \<Rightarrow> bool" where
  "has_columns r =
     (r col_name \<noteq> None \<and> r col_gender \<noteq> None \<and> r col_id_card \<noteq> None \<and> r col_major \<noteq> None)"

section \<open>The run over the roster: \<^verbatim>\<open>process_certificates\<close>\<close>














section \<open>Notions used to state the properties\<close>

text \<open>
  The text a matching paragraph ends with, as a function of the text it starts with: the
  identity marker replaced, then the join-date marker in the result, then the issue-date
  marker in that result, and the whole as a run stores it.
\<close>

definition fill_text ::
  "pystr \<Rightarrow> pystr \<Rightarrow> pystr \<Rightarrow> pystr \<Rightarrow> datetime \<Rightarrow> datetime \<Rightarrow> pystr \<Rightarrow> pystr" where
  "fill_text name gender id_card major join_date issue_date s =
     stored_text
       (str_replace
          (str_replace
             (str_replace s (target_texts ! 0) (new_text name gender major id_card))
             (target_texts ! 1) (strftime_ymd join_date))
          (target_texts ! 2) (strftime_ymd issue_date))"

text \<open>What one guarded assignment of \<open>replace_in_para\<close> does to the text of a paragraph.\<close>

definition guarded_replace :: "pystr \<Rightarrow> pystr \<Rightarrow> pystr \<Rightarrow> pystr" where
  "guarded_replace marker new t =
     (if contains marker t then stored_text (str_replace t marker new) else t)"

text \<open>The three replacements one after the other, on a text.\<close>

definition replace_in_order ::
  "pystr \<Rightarrow> pystr \<Rightarrow> pystr \<Rightarrow> pystr \<Rightarrow> datetime \<Rightarrow> datetime \<Rightarrow> pystr \<Rightarrow> pystr" where
  "replace_in_order name gender id_card major join_date issue_date s =
     str_replace
       (str_replace
          (str_replace s (target_texts ! 0) (new_text name gender major id_card))
          (target_texts ! 1) (strftime_ymd join_date))
       (target_texts ! 2) (strftime_ymd issue_date)"

text \<open>The join-date and issue-date replacements alone, on a text, as a run stores the result.\<close>

definition fill_later :: "datetime \<Rightarrow> datetime \<Rightarrow> pystr \<Rightarrow> pystr" where
  "fill_later join_date issue_date s =
     stored_text
       (str_replace (str_replace s (target_texts ! 1) (strftime_ymd join_date))
          (target_texts ! 2) (strftime_ymd issue_date))"

text \<open>
  Replacements that apply independently, in the words of the specification: one pass over
  the original text in which every occurrence of a marker is replaced by that marker's
  own replacement, and no replacement is looked at again. \<open>subs\<close> pairs each marker with
  its replacement.
\<close>

fun first_match :: "('a list \<times> 'a list) list \<Rightarrow> 'a list \<Rightarrow> ('a list \<times> 'a list) option" where
  "first_match [] s = None"
| "first_match ((old, new) # subs) s =
     (if prefix old s then Some (old, new) else first_match subs s)"

fun replace_independently :: "('a list \<times> 'a list) list \<Rightarrow> 'a list \<Rightarrow> 'a list" where
  "replace_independently subs [] = []"
| "replace_independently subs (c # cs) =
     (case first_match subs (c # cs) of
        None \<Rightarrow> c # replace_independently subs cs
      | Some (old, new) \<Rightarrow> new @ replace_independently subs (drop (length old - 1) cs))"

definition substitutions ::
  "pystr \<Rightarrow> pystr \<Rightarrow> pystr \<Rightarrow> pystr \<Rightarrow> datetime \<Rightarrow> datetime \<Rightarrow> (pystr \<times> pystr) list" where
  "substitutions name gender id_card major join_date issue_date =
     [(target_texts ! 0, new_text name gender major id_card),
      (target_texts ! 1, strftime_ymd join_date),
      (target_texts ! 2, strftime_ymd issue_date)]"

text \<open>
  Two conditions on texts that can be computed. \<open>unbordered old\<close>: no proper, non-empty
  end of \<open>old\<close> is also a beginning of it, so two occurrences of \<open>old\<close> never overlap.
  \<open>separate old x\<close>: no occurrence of \<open>old\<close> that begins before \<open>x\<close> can reach into \<open>x\<close>
  (no proper end of \<open>old\<close> is a beginning of \<open>x\<close> or begins with \<open>x\<close>) and none can begin
  inside \<open>x\<close>, whatever follows it, so no occurrence of \<open>old\<close> overlaps \<open>x\<close> in any text.
\<close>

definition unbordered :: "'a list \<Rightarrow> bool" where
  "unbordered old = list_all (\<lambda>k. \<not> prefix (drop k old) old) [1..<length old]"

definition separate :: "'a list \<Rightarrow> 'a list \<Rightarrow> bool" where
  "separate old x =
     (list_all (\<lambda>k. \<not> prefix (drop k old) x \<and> \<not> prefix x (drop k old)) [1..<length old]
      \<and> list_all (\<lambda>k. \<not> prefix old (drop k x) \<and> \<not> prefix (drop k x) old) [0..<length x])"

text \<open>
  The request of the specification's example: the name (U+5F20 U+4E09), the gender
  (U+7537), the major (four characters), the identity number \<^verbatim>\<open>430XXXXXXXXXXXXXXX\<close>, the
  join date 3 July 2025 and the issue date 17 July 2025.
\<close>

definition example_name :: pystr where
  "example_name = [24352, 19977]"

definition example_gender :: pystr where
  "example_gender = [30007]"

definition example_major :: pystr where
  "example_major = [36719, 20214, 24037, 31243]"

definition example_id_card :: pystr where
  "example_id_card = [52, 51, 48, 88, 88, 88, 88, 88, 88, 88, 88, 88, 88, 88, 88, 88, 88, 88]"

definition example_join_date :: datetime where
  "example_join_date = \<lparr>year = 2025, month = 7, day = 3\<rparr>"

definition example_issue_date :: datetime where
  "example_issue_date = \<lparr>year = 2025, month = 7, day = 17\<rparr>"

text \<open>
  The three texts the specification quotes for this request: the identity sentence, the
  join date and the issue date.
\<close>

definition expected_texts :: "pystr list" where
  "expected_texts =
     [[24352, 19977, 65292, 30007, 65292, 31995, 28246, 21335, 29702, 24037, 23398, 38498,
       20449, 24687, 31185, 23398, 19982, 24037, 31243, 23398, 38498, 36719, 20214, 24037,
       31243, 19987, 19994, 50, 48, 50, 53, 23626, 27605, 19994, 29983, 65288, 36523, 20221,
       35777, 21495, 65306, 52, 51, 48, 88, 88, 88, 88, 88, 88, 88, 88, 88, 88, 88, 88, 88,
       88, 88, 65289],
      [50, 48, 50, 53, 24180, 48, 55, 26376, 48, 51, 26085],
      [50, 48, 50, 53, 24180, 48, 55, 26376, 49, 55, 26085]]"

text \<open>
  A template of three paragraphs to try the request on: some characters, the identity
  marker and a full stop; one character, the join-date marker and two characters; the
  issue-date marker alone.
\<close>

definition example_template :: document where
  "example_template =
     [\<lparr>style = [],
       runs = [\<lparr>run_text = [20857, 35777, 26126], run_font = plain_font\<rparr>,
               \<lparr>run_text = target_texts ! 0 @ [12290], run_font = plain_font\<rparr>]\<rparr>,
      \<lparr>style = [],
       runs = [\<lparr>run_text = [20110] @ target_texts ! 1 @ [20837, 32844],
                run_font = plain_font\<rparr>]\<rparr>,
      \<lparr>style = [], runs = [\<lparr>run_text = target_texts ! 2, run_font = plain_font\<rparr>]\<rparr>]"

text \<open>
  A template whose only paragraph holds two markers: a character, the identity marker, a
  comma, the join-date marker and a full stop.
\<close>

definition combined_template :: document where
  "combined_template =
     [\<lparr>style = [],
       runs = [\<lparr>run_text = [20857] @ target_texts ! 0 @ [65292] @ target_texts ! 1 @ [12290],
                run_font = plain_font\<rparr>]\<rparr>]"

text \<open>
  The directory the specification describes: a name that some row bears is mapped to the
  record of the last row bearing it, any other name to nothing.
\<close>

definition rows_named :: "pystr \<Rightarrow> row list \<Rightarrow> row list" where
  "rows_named name df = filter (\<lambda>r. r col_name = Some name) df"

definition last_row_wins :: "row list \<Rightarrow> (pystr \<rightharpoonup> info)" where
  "last_row_wins df name =
     (if rows_named name df = [] then None else Some (row_info (last (rows_named name df))))"

text \<open>
  A sheet of three rows to try the directory on; the first and the last row bear the same
  name (\<open>example_name\<close>) with different majors and identity numbers.
\<close>

definition make_row :: "pystr \<Rightarrow> pystr \<Rightarrow> pystr \<Rightarrow> pystr \<Rightarrow> row" where
  "make_row name gender id_card major =
     [col_name \<mapsto> name, col_gender \<mapsto> gender, col_id_card \<mapsto> id_card, col_major \<mapsto> major]"

definition sample_rows :: "row list" where
  "sample_rows =
     [make_row example_name example_gender [52, 51, 48] [36719, 20214],
      make_row [26446, 22235] [22899] [52, 51, 49] example_major,
      make_row example_name example_gender example_id_card example_major]"

text \<open>The comprehension of \<open>read_name_list\<close>, on a list of lines.\<close>

definition names_of :: "pystr list \<Rightarrow> pystr list" where
  "names_of ls = [strip line. line \<leftarrow> ls, strip line \<noteq> []]"
















text \<open>A paragraph that consists of one run without formatting of its own.\<close>

definition one_plain_run :: "Paragraph \<Rightarrow> bool" where
  "one_plain_run para = (runs para = [\<lparr>run_text = para_text para, run_font = plain_font\<rparr>])"

text \<open>
  A small document to try the filler on: a heading of two runs, the first with a font of
  its own, and a paragraph of two runs whose text holds the join-date marker, split over
  the two runs, after one character and before two others.
\<close>

definition sample_doc :: document where
  "sample_doc =
     [\<lparr>style = [72],
       runs = [\<lparr>run_text = [29992, 24037],
                run_font = \<lparr>font_name = Some [65], font_size = Some (Pt 22), east_asia = None,
                            bold = Some True\<rparr>\<rparr>,
               \<lparr>run_text = [35777, 26126], run_font = plain_font\<rparr>]\<rparr>,
      \<lparr>style = [],
       runs = [\<lparr>run_text = [20110, 42, 42],
                run_font = \<lparr>font_name = Some [65], font_size = Some (Pt 12), east_asia = None,
                            bold = Some True\<rparr>\<rparr>,
               \<lparr>run_text = [24180, 42, 42, 26376, 42, 42, 26085, 20837, 32844],
                run_font = plain_font\<rparr>]\<rparr>]"

section \<open>Facts about substrings, replacement and stored text\<close>

lemma contains_sublist: "contains sub s \<longleftrightarrow> sublist sub s"
  by (induction s) (auto simp: sublist_Cons_right)

lemma prefix_contains: "prefix sub s \<Longrightarrow> contains sub s"
  by (cases s) auto

lemma contains_append_mid: "contains sub (a @ sub @ b)"
  by (simp add: contains_sublist)

lemma replace_scan_absent: "\<not> contains old s \<Longrightarrow> replace_scan old new s = s"
  by (induction s) auto

lemma str_replace_absent: "\<not> contains old s \<Longrightarrow> str_replace s old new = s"
proof (cases "old = []")
  case True
  assume "\<not> contains old s"
  with True show ?thesis by (simp add: contains_sublist)
next
  case False
  assume "\<not> contains old s"
  with False show ?thesis by (simp add: str_replace_def replace_scan_absent)
qed

lemma prefix_append_cases:
  assumes "prefix xs (ys @ zs)" "\<not> prefix xs ys"
  obtains us where "xs = ys @ us" "us \<noteq> []" "prefix us zs"
proof -
  from assms obtain us where us: "xs = ys @ us" "prefix us zs"
    unfolding prefix_append by blast
  with assms(2) have "us \<noteq> []" by auto
  with us that show thesis by blast
qed

lemma replace_scan_at_marker:
  assumes "old \<noteq> []"
  shows "replace_scan old new (old @ b) = new @ replace_scan old new b"
proof -
  obtain c cs where old: "old = c # cs" using assms by (cases old) auto
  show ?thesis by (simp add: old)
qed

lemma unborderedD:
  assumes "unbordered old" "1 \<le> k" "k < length old"
  shows "\<not> prefix (drop k old) old"
  using assms by (auto simp: unbordered_def list_all_iff)

lemma replace_scan_unbordered:
  assumes "old \<noteq> []" "unbordered old"
  shows "replace_scan old new (a @ old @ b)
           = replace_scan old new a @ new @ replace_scan old new b"
  using assms
proof (induction old new a rule: replace_scan.induct)
  case (1 old new)
  then show ?case by (simp add: replace_scan_at_marker)
next
  case (2 old new c cs)
  show ?case
  proof (cases "prefix old (c # cs)")
    case True
    then have len: "length old \<le> Suc (length cs)" by (auto dest: prefix_length_le)
    from True have p: "prefix old ((c # cs) @ old @ b)" by (metis prefix_prefix)
    have "drop (length old - 1) (cs @ old @ b) = drop (length old - 1) cs @ old @ b"
      using len by simp
    with True p 2 show ?thesis by simp
  next
    case False
    have np: "\<not> prefix old ((c # cs) @ old @ b)"
    proof
      assume pr: "prefix old ((c # cs) @ old @ b)"
      then obtain us where us: "old = (c # cs) @ us" "prefix us (old @ b)" and "us \<noteq> []"
        using False by (rule prefix_append_cases)
      have "length us < length old" using us by simp
      then have "prefix us old" using us(2) unfolding prefix_append by (auto dest: prefix_length_le)
      moreover have "us = drop (length (c # cs)) old" using us(1) by simp
      moreover have "length (c # cs) < length old" using us(1) \<open>us \<noteq> []\<close> by simp
      ultimately show False using unborderedD[OF 2(4), of "length (c # cs)"] by simp
    qed
    with False 2 show ?thesis by simp
  qed
qed

lemma separateD:
  assumes "separate old x" "k < length x"
  shows "\<not> prefix old (drop k x)" "\<not> prefix (drop k x) old"
  using assms by (auto simp: separate_def list_all_iff)

lemma separate_endD:
  assumes "separate old x" "1 \<le> k" "k < length old"
  shows "\<not> prefix (drop k old) x" "\<not> prefix x (drop k old)"
  using assms by (auto simp: separate_def list_all_iff)

lemma replace_scan_through:
  assumes "\<And>k. k < length u \<Longrightarrow> \<not> prefix old (drop k u) \<and> \<not> prefix (drop k u) old"
  shows "replace_scan old new (u @ b) = u @ replace_scan old new b"
  using assms
proof (induction u)
  case Nil
  then show ?case by simp
next
  case (Cons c u)
  have "\<not> prefix old (drop 0 (c # u)) \<and> \<not> prefix (drop 0 (c # u)) old"
    using Cons.prems[of 0] by simp
  then have np: "\<not> prefix old ((c # u) @ b)"
    unfolding prefix_append by (auto simp: prefix_def)
  have "\<And>k. k < length u \<Longrightarrow> \<not> prefix old (drop k u) \<and> \<not> prefix (drop k u) old"
    using Cons.prems[of "Suc k" for k] by simp
  with Cons.IH np show ?case by simp
qed

lemma replace_scan_separate:
  assumes "old \<noteq> []" "separate old x"
  shows "replace_scan old new (a @ x @ b)
           = replace_scan old new a @ x @ replace_scan old new b"
  using assms
proof (induction old new a rule: replace_scan.induct)
  case (1 old new)
  then show ?case using replace_scan_through[of x old new b] separateD[of old x] by simp
next
  case (2 old new c cs)
  show ?case
  proof (cases "prefix old (c # cs)")
    case True
    then have len: "length old \<le> Suc (length cs)" by (auto dest: prefix_length_le)
    from True have p: "prefix old ((c # cs) @ x @ b)" by (metis prefix_prefix)
    have "drop (length old - 1) (cs @ x @ b) = drop (length old - 1) cs @ x @ b"
      using len by simp
    with True p 2 show ?thesis by simp
  next
    case False
    have np: "\<not> prefix old ((c # cs) @ x @ b)"
    proof
      assume pr: "prefix old ((c # cs) @ x @ b)"
      then obtain us where us: "old = (c # cs) @ us" "prefix us (x @ b)" and "us \<noteq> []"
        using False by (rule prefix_append_cases)
      have k: "1 \<le> length (c # cs)" "length (c # cs) < length old"
        using us(1) \<open>us \<noteq> []\<close> by simp_all
      have d: "drop (length (c # cs)) old = us" using us(1) by simp
      have "prefix us x \<or> prefix x us"
        using us(2) unfolding prefix_append by (auto simp: prefix_def)
      then show False using separate_endD[OF 2(4) k] unfolding d by blast
    qed
    with False 2 show ?thesis by simp
  qed
qed

lemma stored_text_append: "stored_text (a @ b) = stored_text a @ stored_text b"
  by (simp add: stored_text_def)

lemma stored_text_Cons: "stored_text (c # cs) = (if c = 13 then 10 else c) # stored_text cs"
  by (simp add: stored_text_def)

lemma stored_text_idem: "stored_text (stored_text s) = stored_text s"
  by (simp add: stored_text_def)

lemma stored_text_id: "13 \<notin> set s \<Longrightarrow> stored_text s = s"
  by (induction s) (auto simp: stored_text_def)

lemma stored_text_length: "length (stored_text s) = length s"
  by (simp add: stored_text_def)

lemma prefix_stored_text:
  assumes "10 \<notin> set m" "13 \<notin> set m"
  shows "prefix m (stored_text s) \<longleftrightarrow> prefix m s"
  using assms
proof (induction m arbitrary: s)
  case Nil
  then show ?case by simp
next
  case (Cons x m)
  show ?case
  proof (cases s)
    case Nil
    then show ?thesis by (simp add: stored_text_def)
  next
    case (Cons c cs)
    have "prefix m (stored_text cs) \<longleftrightarrow> prefix m cs" using Cons.IH Cons.prems by simp
    moreover have "x = (if c = 13 then 10 else c) \<longleftrightarrow> x = c" using Cons.prems by auto
    ultimately show ?thesis using Cons by (simp add: stored_text_def)
  qed
qed

lemma contains_stored_text:
  assumes "10 \<notin> set m" "13 \<notin> set m"
  shows "contains m (stored_text s) \<longleftrightarrow> contains m s"
proof (induction s)
  case Nil
  then show ?case by (simp add: stored_text_def)
next
  case (Cons c cs)
  have "prefix m (stored_text (c # cs)) \<longleftrightarrow> prefix m (c # cs)"
    using assms by (rule prefix_stored_text)
  moreover have "stored_text (c # cs) = (if c = 13 then 10 else c) # stored_text cs"
    by (simp add: stored_text_def)
  ultimately show ?case using Cons by simp
qed

lemma replace_scan_stored_text:
  assumes "10 \<notin> set old" "13 \<notin> set old"
  shows "stored_text (replace_scan old new s)
           = replace_scan old (stored_text new) (stored_text s)"
  using assms
proof (induction old new s rule: replace_scan.induct)
  case (1 old new)
  then show ?case by (simp add: stored_text_def)
next
  case (2 old new c cs)
  have pre: "prefix old (stored_text (c # cs)) \<longleftrightarrow> prefix old (c # cs)"
    using 2(3,4) by (rule prefix_stored_text)
  have cons: "stored_text (c # cs) = (if c = 13 then 10 else c) # stored_text cs"
    by (simp add: stored_text_def)
  have dr: "drop (length old - 1) (stored_text cs) = stored_text (drop (length old - 1) cs)"
    by (simp add: stored_text_def drop_map)
  show ?case
  proof (cases "prefix old (c # cs)")
    case True
    with pre have "prefix old (stored_text (c # cs))" by simp
    then have "prefix old ((if c = 13 then 10 else c) # stored_text cs)"
      unfolding cons .
    with True 2 dr show ?thesis by (simp add: stored_text_Cons stored_text_append)
  next
    case False
    with pre have "\<not> prefix old (stored_text (c # cs))" by simp
    then have "\<not> prefix old ((if c = 13 then 10 else c) # stored_text cs)"
      unfolding cons .
    with False 2 show ?thesis by (simp add: stored_text_Cons)
  qed
qed

lemma str_replace_stored_text:
  assumes "old \<noteq> []" "10 \<notin> set old" "13 \<notin> set old"
  shows "stored_text (str_replace s old new)
           = str_replace (stored_text s) old (stored_text new)"
  using assms by (simp add: str_replace_def replace_scan_stored_text)

text \<open>One guarded assignment, on the text of the paragraph.\<close>

lemma para_text_set: "para_text (para_set_text para s) = stored_text s"
  by (simp add: para_text_def para_set_text_def)

lemma replace_in_para_text:
  "para_text (replace_in_para m new para) = guarded_replace m new (para_text para)"
  by (simp add: replace_in_para_def para_text_set guarded_replace_def)

lemma set_run_font_text: "para_text (para\<lparr>runs := map set_run_font (runs para)\<rparr>) = para_text para"
  by (simp add: para_text_def set_run_font_def comp_def)

lemma guarded_replace_found:
  "contains m t \<Longrightarrow> guarded_replace m new t = stored_text (str_replace t m new)"
  by (simp add: guarded_replace_def)

lemma guarded_replace_absent:
  "\<not> contains m t \<Longrightarrow> guarded_replace m new t = t"
  by (simp add: guarded_replace_def)

lemma guarded_replace_stored:
  assumes "m \<noteq> []" "10 \<notin> set m" "13 \<notin> set m"
  shows "guarded_replace m new (stored_text v) = stored_text (str_replace v m new)"
proof (cases "contains m v")
  case True
  then have "contains m (stored_text v)" using assms by (simp add: contains_stored_text)
  moreover have "stored_text (str_replace (stored_text v) m new)
                   = stored_text (str_replace v m new)"
    using assms by (simp add: str_replace_stored_text stored_text_idem)
  ultimately show ?thesis by (simp add: guarded_replace_def)
next
  case False
  then have "\<not> contains m (stored_text v)" using assms by (simp add: contains_stored_text)
  with False show ?thesis by (simp add: guarded_replace_def str_replace_absent)
qed

lemma three_guarded_replaces:
  assumes m0: "m0 \<noteq> []" "10 \<notin> set m0" "13 \<notin> set m0"
      and m1: "m1 \<noteq> []" "10 \<notin> set m1" "13 \<notin> set m1"
      and m2: "m2 \<noteq> []" "10 \<notin> set m2" "13 \<notin> set m2"
      and any: "contains m0 t \<or> contains m1 t \<or> contains m2 t"
  shows "guarded_replace m2 n2 (guarded_replace m1 n1 (guarded_replace m0 n0 t))
           = stored_text (str_replace (str_replace (str_replace t m0 n0) m1 n1) m2 n2)"
proof (cases "contains m0 t")
  case True
  then have "guarded_replace m0 n0 t = stored_text (str_replace t m0 n0)"
    by (rule guarded_replace_found)
  then show ?thesis
    by (simp only: guarded_replace_stored[OF m1] guarded_replace_stored[OF m2])
next
  case n0: False
  then have e0: "guarded_replace m0 n0 t = t" "str_replace t m0 n0 = t"
    by (simp_all add: guarded_replace_absent str_replace_absent)
  show ?thesis
  proof (cases "contains m1 t")
    case True
    then have "guarded_replace m1 n1 t = stored_text (str_replace t m1 n1)"
      by (rule guarded_replace_found)
    then show ?thesis
      by (simp only: e0 guarded_replace_stored[OF m2])
  next
    case n1: False
    then have e1: "guarded_replace m1 n1 t = t" "str_replace t m1 n1 = t"
      by (simp_all add: guarded_replace_absent str_replace_absent)
    have "contains m2 t" using any n0 n1 by simp
    then have "guarded_replace m2 n2 t = stored_text (str_replace t m2 n2)"
      by (rule guarded_replace_found)
    then show ?thesis by (simp only: e0 e1)
  qed
qed

lemma marker_facts:
  "target_texts ! 0 \<noteq> []" "10 \<notin> set (target_texts ! 0)" "13 \<notin> set (target_texts ! 0)"
  "target_texts ! 1 \<noteq> []" "10 \<notin> set (target_texts ! 1)" "13 \<notin> set (target_texts ! 1)"
  "target_texts ! 2 \<noteq> []" "10 \<notin> set (target_texts ! 2)" "13 \<notin> set (target_texts ! 2)"
  by (simp_all add: target_texts_def)

lemma list_ex_markers:
  "list_ex P target_texts \<longleftrightarrow> P (target_texts ! 0) \<or> P (target_texts ! 1) \<or> P (target_texts ! 2)"
  by (simp add: target_texts_def)

lemma fill_paragraph_matching:
  assumes "list_ex (\<lambda>text. contains text (para_text para)) target_texts"
  shows "fill_paragraph name gender id_card major join_date issue_date para
           = (let p3 = replace_in_para (target_texts ! 2) (strftime_ymd issue_date)
                         (replace_in_para (target_texts ! 1) (strftime_ymd join_date)
                            (replace_in_para (target_texts ! 0)
                               (new_text name gender major id_card) para))
              in p3\<lparr>runs := map set_run_font (runs p3)\<rparr>)"
  using assms by (simp only: fill_paragraph_def Let_def if_True)

lemma fill_paragraph_text:
  assumes "list_ex (\<lambda>text. contains text (para_text para)) target_texts"
  shows "para_text (fill_paragraph name gender id_card major join_date issue_date para)
           = fill_text name gender id_card major join_date issue_date (para_text para)"
proof -
  have any: "contains (target_texts ! 0) (para_text para)
               \<or> contains (target_texts ! 1) (para_text para)
               \<or> contains (target_texts ! 2) (para_text para)"
    using assms by (simp only: list_ex_markers)
  show ?thesis
    unfolding fill_paragraph_matching[OF assms] Let_def set_run_font_text
      replace_in_para_text fill_text_def
    by (rule three_guarded_replaces[OF marker_facts any])
qed

text \<open>Paragraphs of a filled document.\<close>

lemma length_replace_placeholders:
  "length (replace_placeholders doc name gender id_card major join_date issue_date) = length doc"
  by (simp add: replace_placeholders_def)

lemma nth_replace_placeholders:
  "i < length doc \<Longrightarrow>
   replace_placeholders doc name gender id_card major join_date issue_date ! i
     = fill_paragraph name gender id_card major join_date issue_date (doc ! i)"
  by (simp add: replace_placeholders_def)

lemma fill_paragraph_unmatched:
  "\<not> list_ex (\<lambda>text. contains text (para_text para)) target_texts \<Longrightarrow>
   fill_paragraph name gender id_card major join_date issue_date para = para"
  by (simp only: fill_paragraph_def if_False)

lemma one_plain_run_set: "one_plain_run (para_set_text para s)"
  by (simp add: one_plain_run_def para_set_text_def para_text_def)

lemma one_plain_run_found:
  "contains m (para_text para) \<Longrightarrow> one_plain_run (replace_in_para m new para)"
  by (simp add: replace_in_para_def one_plain_run_set)

lemma one_plain_run_kept:
  "one_plain_run para \<Longrightarrow> one_plain_run (replace_in_para m new para)"
  by (simp add: replace_in_para_def one_plain_run_set)

lemma replace_in_para_absent:
  "\<not> contains m (para_text para) \<Longrightarrow> replace_in_para m new para = para"
  by (simp add: replace_in_para_def)

lemma three_replaces_one_run:
  assumes "contains m0 (para_text para) \<or> contains m1 (para_text para)
             \<or> contains m2 (para_text para)"
  shows "one_plain_run (replace_in_para m2 n2 (replace_in_para m1 n1 (replace_in_para m0 n0 para)))"
proof (cases "contains m0 (para_text para)")
  case True
  then show ?thesis by (intro one_plain_run_kept one_plain_run_found)
next
  case n0: False
  then have e0: "replace_in_para m0 n0 para = para" by (rule replace_in_para_absent)
  show ?thesis
  proof (cases "contains m1 (para_text para)")
    case True
    then show ?thesis unfolding e0 by (intro one_plain_run_kept one_plain_run_found)
  next
    case n1: False
    then have e1: "replace_in_para m1 n1 para = para" by (rule replace_in_para_absent)
    have "contains m2 (para_text para)" using assms n0 n1 by simp
    then show ?thesis unfolding e0 e1 by (rule one_plain_run_found)
  qed
qed

text \<open>The markers do not overlap themselves, each other or a formatted date.\<close>

lemma markers_unbordered:
  "unbordered (target_texts ! 0)" "unbordered (target_texts ! 1)" "unbordered (target_texts ! 2)"
  by code_simp+

lemma markers_separate:
  "separate (target_texts ! 0) (target_texts ! 1)"
  "separate (target_texts ! 0) (target_texts ! 2)"
  "separate (target_texts ! 1) (target_texts ! 2)"
  by code_simp+

lemma strftime_ymd_shape:
  "\<exists>d1 d2 d3 d4 d5 d6 d7 d8.
     strftime_ymd dt = [d1, d2, d3, d4, 24180, d5, d6, 26376, d7, d8, 26085]
     \<and> list_all (\<lambda>d. 48 \<le> d \<and> d \<le> 57) [d1, d2, d3, d4, d5, d6, d7, d8]"
proof -
  have r: "\<And>v::int. 48 \<le> digit (v mod 10) \<and> digit (v mod 10) \<le> 57"
  proof -
    fix v :: int
    have "0 \<le> v mod 10" "v mod 10 < 10" by simp_all
    then show "48 \<le> digit (v mod 10) \<and> digit (v mod 10) \<le> 57" by (simp add: digit_def)
  qed
  show ?thesis
    by (simp add: strftime_ymd_def four_digits_def two_digits_def r)
qed

lemma separate_issue_marker_digits:
  assumes "list_all (\<lambda>d. 48 \<le> d \<and> d \<le> 57) [d1, d2, d3, d4, d5, d6, d7, d8]"
  shows "separate (target_texts ! 2) [d1, d2, d3, d4, 24180, d5, d6, 26376, d7, d8, 26085]"
  using assms
  by (simp add: separate_def target_texts_def)


lemma str_replace_unbordered:
  assumes "old \<noteq> []" "unbordered old"
  shows "str_replace (a @ old @ b) old new = str_replace a old new @ new @ str_replace b old new"
  using assms by (simp add: str_replace_def replace_scan_unbordered)

lemma str_replace_separate:
  assumes "old \<noteq> []" "separate old x"
  shows "str_replace (a @ x @ b) old new = str_replace a old new @ x @ str_replace b old new"
  using assms by (simp add: str_replace_def replace_scan_separate)

lemma separate_issue_marker_date: "separate (target_texts ! 2) (strftime_ymd dt)"
proof -
  obtain d1 d2 d3 d4 d5 d6 d7 d8 where
    s: "strftime_ymd dt = [d1, d2, d3, d4, 24180, d5, d6, 26376, d7, d8, 26085]"
    and r: "list_all (\<lambda>d. 48 \<le> d \<and> d \<le> 57) [d1, d2, d3, d4, d5, d6, d7, d8]"
    using strftime_ymd_shape[of dt] by blast
  show ?thesis unfolding s using r by (rule separate_issue_marker_digits)
qed

lemma strftime_ymd_stored: "stored_text (strftime_ymd dt) = strftime_ymd dt"
proof -
  obtain d1 d2 d3 d4 d5 d6 d7 d8 where
    s: "strftime_ymd dt = [d1, d2, d3, d4, 24180, d5, d6, 26376, d7, d8, 26085]"
    and r: "list_all (\<lambda>d. 48 \<le> d \<and> d \<le> 57) [d1, d2, d3, d4, d5, d6, d7, d8]"
    using strftime_ymd_shape[of dt] by blast
  from r show ?thesis unfolding s by (simp add: stored_text_def)
qed

lemma fill_text_split_identity:
  assumes s1: "separate (target_texts ! 1) (new_text name gender major id_card)"
      and s2: "separate (target_texts ! 2) (new_text name gender major id_card)"
  shows "fill_text name gender id_card major join_date issue_date (a @ target_texts ! 0 @ b)
           = fill_text name gender id_card major join_date issue_date a
             @ stored_text (new_text name gender major id_card)
             @ fill_text name gender id_card major join_date issue_date b"
  unfolding fill_text_def
    str_replace_unbordered[OF marker_facts(1) markers_unbordered(1)]
    str_replace_separate[OF marker_facts(4) s1]
    str_replace_separate[OF marker_facts(7) s2]
    stored_text_append ..

lemma fill_text_split_join:
  "fill_text name gender id_card major join_date issue_date (a @ target_texts ! 1 @ b)
     = fill_text name gender id_card major join_date issue_date a
       @ strftime_ymd join_date
       @ fill_text name gender id_card major join_date issue_date b"
  unfolding fill_text_def
    str_replace_separate[OF marker_facts(1) markers_separate(1)]
    str_replace_unbordered[OF marker_facts(4) markers_unbordered(2)]
    str_replace_separate[OF marker_facts(7) separate_issue_marker_date]
    stored_text_append strftime_ymd_stored ..

lemma fill_text_split_issue:
  "fill_text name gender id_card major join_date issue_date (a @ target_texts ! 2 @ b)
     = fill_text name gender id_card major join_date issue_date a
       @ strftime_ymd issue_date
       @ fill_text name gender id_card major join_date issue_date b"
  unfolding fill_text_def
    str_replace_separate[OF marker_facts(1) markers_separate(2)]
    str_replace_separate[OF marker_facts(4) markers_separate(3)]
    str_replace_unbordered[OF marker_facts(7) markers_unbordered(3)]
    stored_text_append strftime_ymd_stored ..

lemma fill_text_unmarked:
  assumes "\<not> list_ex (\<lambda>text. contains text s) target_texts"
  shows "fill_text name gender id_card major join_date issue_date s = stored_text s"
proof -
  have "\<not> (contains (target_texts ! 0) s \<or> contains (target_texts ! 1) s
            \<or> contains (target_texts ! 2) s)"
    using assms unfolding list_ex_markers .
  then have "\<not> contains (target_texts ! 0) s" "\<not> contains (target_texts ! 1) s"
       "\<not> contains (target_texts ! 2) s"
    by blast+
  then show ?thesis by (simp add: fill_text_def str_replace_absent)
qed

lemma contains_marker_any:
  assumes "k < 3"
  shows "list_ex (\<lambda>text. contains text (a @ target_texts ! k @ b)) target_texts"
proof -
  have "k = 0 \<or> k = 1 \<or> k = 2" using assms by arith
  moreover have "contains (target_texts ! k) (a @ target_texts ! k @ b)"
    by (rule contains_append_mid)
  ultimately show ?thesis unfolding list_ex_markers by blast
qed

lemma example_texts:
  "new_text example_name example_gender example_major example_id_card = expected_texts ! 0"
  "strftime_ymd example_join_date = expected_texts ! 1"
  "strftime_ymd example_issue_date = expected_texts ! 2"
  by code_simp+

lemma example_identity_separate:
  "separate (target_texts ! 1) (expected_texts ! 0)"
  "separate (target_texts ! 2) (expected_texts ! 0)"
  "stored_text (expected_texts ! 0) = expected_texts ! 0"
  by code_simp+

text \<open>A later marker inside the identity sentence; beginnings of a replaced text.\<close>

lemma fill_paragraph_text_steps:
  assumes "list_ex (\<lambda>text. contains text (para_text para)) target_texts"
  shows "para_text (fill_paragraph name gender id_card major join_date issue_date para)
           = guarded_replace (target_texts ! 2) (strftime_ymd issue_date)
               (guarded_replace (target_texts ! 1) (strftime_ymd join_date)
                  (guarded_replace (target_texts ! 0) (new_text name gender major id_card)
                     (para_text para)))"
  unfolding fill_paragraph_matching[OF assms] Let_def set_run_font_text replace_in_para_text ..

lemma substitutions_snd:
  "snd (substitutions name gender id_card major join_date issue_date ! 1) = strftime_ymd join_date"
  "snd (substitutions name gender id_card major join_date issue_date ! 2) = strftime_ymd issue_date"
  by (simp_all add: substitutions_def)

lemma fill_text_spliced_join:
  assumes "new_text name gender major id_card = u @ target_texts ! 1 @ v"
  shows "fill_text name gender id_card major join_date issue_date (a @ target_texts ! 0 @ b)
           = fill_later join_date issue_date
               (str_replace a (target_texts ! 0) (new_text name gender major id_card) @ u)
             @ strftime_ymd join_date
             @ fill_later join_date issue_date
                 (v @ str_replace b (target_texts ! 0) (new_text name gender major id_card))"
proof -
  let ?ID = "new_text name gender major id_card"
  let ?A = "str_replace a (target_texts ! 0) ?ID"
  let ?B = "str_replace b (target_texts ! 0) ?ID"
  have "str_replace (a @ target_texts ! 0 @ b) (target_texts ! 0) ?ID = ?A @ ?ID @ ?B"
    by (rule str_replace_unbordered[OF marker_facts(1) markers_unbordered(1)])
  also have "\<dots> = (?A @ u) @ target_texts ! 1 @ (v @ ?B)"
    by (simp only: assms append_assoc)
  finally have e: "str_replace (a @ target_texts ! 0 @ b) (target_texts ! 0) ?ID
                     = (?A @ u) @ target_texts ! 1 @ (v @ ?B)" .
  show ?thesis
    unfolding fill_text_def fill_later_def e
      str_replace_unbordered[OF marker_facts(4) markers_unbordered(2)]
      str_replace_separate[OF marker_facts(7) separate_issue_marker_date]
      stored_text_append strftime_ymd_stored ..
qed

lemma fill_text_spliced_issue:
  assumes "new_text name gender major id_card = u @ target_texts ! 2 @ v"
  shows "fill_text name gender id_card major join_date issue_date (a @ target_texts ! 0 @ b)
           = fill_later join_date issue_date
               (str_replace a (target_texts ! 0) (new_text name gender major id_card) @ u)
             @ strftime_ymd issue_date
             @ fill_later join_date issue_date
                 (v @ str_replace b (target_texts ! 0) (new_text name gender major id_card))"
proof -
  let ?ID = "new_text name gender major id_card"
  let ?A = "str_replace a (target_texts ! 0) ?ID"
  let ?B = "str_replace b (target_texts ! 0) ?ID"
  have "str_replace (a @ target_texts ! 0 @ b) (target_texts ! 0) ?ID = ?A @ ?ID @ ?B"
    by (rule str_replace_unbordered[OF marker_facts(1) markers_unbordered(1)])
  also have "\<dots> = (?A @ u) @ target_texts ! 2 @ (v @ ?B)"
    by (simp only: assms append_assoc)
  finally have e: "str_replace (a @ target_texts ! 0 @ b) (target_texts ! 0) ?ID
                     = (?A @ u) @ target_texts ! 2 @ (v @ ?B)" .
  show ?thesis
    unfolding fill_text_def fill_later_def e
      str_replace_separate[OF marker_facts(4) markers_separate(3)]
      str_replace_unbordered[OF marker_facts(7) markers_unbordered(3)]
      stored_text_append strftime_ymd_stored ..
qed

lemma prefix_replace_scan:
  assumes "\<And>k. k < length w \<Longrightarrow> \<not> prefix old (drop k w) \<and> \<not> prefix (drop k w) old"
      and "\<And>k. k < length w \<Longrightarrow> \<not> prefix (drop k w) new \<and> \<not> prefix new (drop k w)"
  shows "prefix w (replace_scan old new s) \<longleftrightarrow> prefix w s"
  using assms
proof (induction old new s arbitrary: w rule: replace_scan.induct)
  case (1 old new)
  then show ?case by simp
next
  case (2 old new c cs)
  show ?case
  proof (cases w)
    case Nil
    then show ?thesis by simp
  next
    case (Cons x xs)
    have A0: "\<not> prefix old w" "\<not> prefix w old" using "2.prems"(1)[of 0] Cons by simp_all
    have B0: "\<not> prefix w new" "\<not> prefix new w" using "2.prems"(2)[of 0] Cons by simp_all
    show ?thesis
    proof (cases "prefix old (c # cs)")
      case True
      have "\<not> prefix w (new @ replace_scan old new (drop (length old - 1) cs))"
        using B0 unfolding prefix_append by (auto simp: prefix_def)
      moreover have "\<not> prefix w (c # cs)"
        using True A0 prefix_same_cases by blast
      ultimately show ?thesis using True by simp
    next
      case False
      have "\<And>k. k < length xs \<Longrightarrow> \<not> prefix old (drop k xs) \<and> \<not> prefix (drop k xs) old"
        using "2.prems"(1)[of "Suc k" for k] Cons by simp
      moreover have "\<And>k. k < length xs \<Longrightarrow> \<not> prefix (drop k xs) new \<and> \<not> prefix new (drop k xs)"
        using "2.prems"(2)[of "Suc k" for k] Cons by simp
      ultimately have "prefix xs (replace_scan old new cs) \<longleftrightarrow> prefix xs cs"
        using "2.IH"(2)[OF False] by blast
      then show ?thesis using False Cons by simp
    qed
  qed
qed

lemma prefix_str_replace:
  assumes "old \<noteq> []" "new \<noteq> []" "separate old m" "separate m new"
  shows "prefix m (str_replace s old new) \<longleftrightarrow> prefix m s"
proof -
  have A: "\<And>k. k < length m \<Longrightarrow> \<not> prefix old (drop k m) \<and> \<not> prefix (drop k m) old"
    using separateD[OF assms(3)] by blast
  have B: "\<not> prefix (drop k m) new \<and> \<not> prefix new (drop k m)" if "k < length m" for k
  proof (cases k)
    case 0
    have "0 < length new" using assms(2) by simp
    from separateD[OF assms(4) this] show ?thesis using 0 by simp
  next
    case (Suc j)
    then have "1 \<le> k" by simp
    from separate_endD[OF assms(4) this that] show ?thesis by simp
  qed
  show ?thesis using assms(1) prefix_replace_scan[of m old new s] A B
    by (simp add: str_replace_def)
qed

text \<open>Replacing in order and replacing independently.\<close>

lemma new_text_nonempty: "new_text name gender major id_card \<noteq> []"
  by (simp add: new_text_def)

lemma strftime_ymd_nonempty: "strftime_ymd dt \<noteq> []"
  by (simp add: strftime_ymd_def four_digits_def two_digits_def)

lemma str_replace_Nil: "old \<noteq> [] \<Longrightarrow> str_replace [] old new = []"
  by (simp add: str_replace_def)

lemma str_replace_unbordered_head:
  assumes "old \<noteq> []" "unbordered old"
  shows "str_replace (old @ b) old new = new @ str_replace b old new"
  using str_replace_unbordered[OF assms, of "[]" b new] assms(1)
  by (simp add: str_replace_Nil)

lemma str_replace_separate_head:
  assumes "old \<noteq> []" "separate old x"
  shows "str_replace (x @ b) old new = x @ str_replace b old new"
  using str_replace_separate[OF assms, of "[]" b new] assms(1)
  by (simp add: str_replace_Nil)

lemma replace_in_order_at_identity:
  assumes "separate (target_texts ! 1) (new_text name gender major id_card)"
      and "separate (target_texts ! 2) (new_text name gender major id_card)"
  shows "replace_in_order name gender id_card major join_date issue_date (target_texts ! 0 @ b)
           = new_text name gender major id_card
             @ replace_in_order name gender id_card major join_date issue_date b"
  unfolding replace_in_order_def
    str_replace_unbordered_head[OF marker_facts(1) markers_unbordered(1)]
    str_replace_separate_head[OF marker_facts(4) assms(1)]
    str_replace_separate_head[OF marker_facts(7) assms(2)] ..

lemma replace_in_order_at_join:
  "replace_in_order name gender id_card major join_date issue_date (target_texts ! 1 @ b)
     = strftime_ymd join_date
       @ replace_in_order name gender id_card major join_date issue_date b"
  unfolding replace_in_order_def
    str_replace_separate_head[OF marker_facts(1) markers_separate(1)]
    str_replace_unbordered_head[OF marker_facts(4) markers_unbordered(2)]
    str_replace_separate_head[OF marker_facts(7) separate_issue_marker_date] ..

lemma replace_in_order_at_issue:
  "replace_in_order name gender id_card major join_date issue_date (target_texts ! 2 @ b)
     = strftime_ymd issue_date
       @ replace_in_order name gender id_card major join_date issue_date b"
  unfolding replace_in_order_def
    str_replace_separate_head[OF marker_facts(1) markers_separate(2)]
    str_replace_separate_head[OF marker_facts(4) markers_separate(3)]
    str_replace_unbordered_head[OF marker_facts(7) markers_unbordered(3)] ..

lemma replace_in_order_Nil:
  "replace_in_order name gender id_card major join_date issue_date [] = []"
  unfolding replace_in_order_def str_replace_Nil[OF marker_facts(1)]
    str_replace_Nil[OF marker_facts(4)] str_replace_Nil[OF marker_facts(7)] ..

lemma str_replace_no_prefix:
  assumes "old \<noteq> []" "\<not> prefix old (c # cs)"
  shows "str_replace (c # cs) old new = c # str_replace cs old new"
  using assms by (simp add: str_replace_def)

lemma replace_in_order_step:
  assumes s1: "separate (target_texts ! 1) (new_text name gender major id_card)"
      and s2: "separate (target_texts ! 2) (new_text name gender major id_card)"
      and n0: "\<not> prefix (target_texts ! 0) (c # cs)"
      and n1: "\<not> prefix (target_texts ! 1) (c # cs)"
      and n2: "\<not> prefix (target_texts ! 2) (c # cs)"
  shows "replace_in_order name gender id_card major join_date issue_date (c # cs)
           = c # replace_in_order name gender id_card major join_date issue_date cs"
proof -
  let ?ID = "new_text name gender major id_card"
  let ?r0 = "str_replace cs (target_texts ! 0) ?ID"
  let ?r1 = "str_replace ?r0 (target_texts ! 1) (strftime_ymd join_date)"
  have e0: "str_replace (c # cs) (target_texts ! 0) ?ID = c # ?r0"
    using marker_facts(1) n0 by (rule str_replace_no_prefix)
  have "prefix (target_texts ! 1) (str_replace (c # cs) (target_texts ! 0) ?ID)
          \<longleftrightarrow> prefix (target_texts ! 1) (c # cs)"
    by (rule prefix_str_replace[OF marker_facts(1) new_text_nonempty markers_separate(1) s1])
  then have p1: "\<not> prefix (target_texts ! 1) (c # ?r0)" using n1 unfolding e0 by simp
  have e1: "str_replace (c # ?r0) (target_texts ! 1) (strftime_ymd join_date) = c # ?r1"
    using marker_facts(4) p1 by (rule str_replace_no_prefix)
  have "prefix (target_texts ! 2) (str_replace (c # ?r0) (target_texts ! 1) (strftime_ymd join_date))
          \<longleftrightarrow> prefix (target_texts ! 2) (c # ?r0)"
    by (rule prefix_str_replace[OF marker_facts(4) strftime_ymd_nonempty markers_separate(3)
          separate_issue_marker_date])
  moreover have "prefix (target_texts ! 2) (str_replace (c # cs) (target_texts ! 0) ?ID)
          \<longleftrightarrow> prefix (target_texts ! 2) (c # cs)"
    by (rule prefix_str_replace[OF marker_facts(1) new_text_nonempty markers_separate(2) s2])
  ultimately have p2: "\<not> prefix (target_texts ! 2) (c # ?r1)" using n2 unfolding e0 e1 by simp
  have e2: "str_replace (c # ?r1) (target_texts ! 2) (strftime_ymd issue_date)
              = c # str_replace ?r1 (target_texts ! 2) (strftime_ymd issue_date)"
    using marker_facts(7) p2 by (rule str_replace_no_prefix)
  show ?thesis unfolding replace_in_order_def e0 e1 e2 ..
qed

lemma prefix_drop_decompose:
  assumes "prefix m (c # cs)" "m \<noteq> []"
  shows "c # cs = m @ drop (length m - 1) cs"
proof -
  obtain r where r: "c # cs = m @ r" using assms(1) by (auto simp: prefix_def)
  obtain x xs where m: "m = x # xs" using assms(2) by (cases m) auto
  from r m have "cs = xs @ r" by simp
  then have "drop (length m - 1) cs = r" using m by simp
  with r show ?thesis by simp
qed

lemma replace_in_order_independent:
  assumes s1: "separate (target_texts ! 1) (new_text name gender major id_card)"
      and s2: "separate (target_texts ! 2) (new_text name gender major id_card)"
      and subs: "subs = substitutions name gender id_card major join_date issue_date"
  shows "replace_independently subs t
           = replace_in_order name gender id_card major join_date issue_date t"
  using subs
proof (induction subs t rule: replace_independently.induct)
  case (1 subs)
  then show ?case by (simp add: replace_in_order_Nil)
next
  case (2 subs c cs)
  let ?G = "replace_in_order name gender id_card major join_date issue_date"
  note sb = "2.prems"
  show ?case
  proof (cases "prefix (target_texts ! 0) (c # cs)")
    case True
    then have fm: "first_match subs (c # cs)
                     = Some (target_texts ! 0, new_text name gender major id_card)"
      by (simp add: sb substitutions_def)
    have d: "c # cs = target_texts ! 0 @ drop (length (target_texts ! 0) - 1) cs"
      using True marker_facts(1) by (rule prefix_drop_decompose)
    have "?G (c # cs) = new_text name gender major id_card
                          @ ?G (drop (length (target_texts ! 0) - 1) cs)"
      by (subst d) (rule replace_in_order_at_identity[OF s1 s2])
    moreover have "replace_independently subs (drop (length (target_texts ! 0) - 1) cs)
                     = ?G (drop (length (target_texts ! 0) - 1) cs)"
      using "2.IH"(2)[OF fm refl sb] .
    ultimately show ?thesis using fm by simp
  next
    case n0: False
    show ?thesis
    proof (cases "prefix (target_texts ! 1) (c # cs)")
      case True
      then have fm: "first_match subs (c # cs) = Some (target_texts ! 1, strftime_ymd join_date)"
        using n0 by (simp add: sb substitutions_def)
      have d: "c # cs = target_texts ! 1 @ drop (length (target_texts ! 1) - 1) cs"
        using True marker_facts(4) by (rule prefix_drop_decompose)
      have "?G (c # cs) = strftime_ymd join_date @ ?G (drop (length (target_texts ! 1) - 1) cs)"
        by (subst d) (rule replace_in_order_at_join)
      moreover have "replace_independently subs (drop (length (target_texts ! 1) - 1) cs)
                       = ?G (drop (length (target_texts ! 1) - 1) cs)"
        using "2.IH"(2)[OF fm refl sb] .
      ultimately show ?thesis using fm by simp
    next
      case n1: False
      show ?thesis
      proof (cases "prefix (target_texts ! 2) (c # cs)")
        case True
        then have fm: "first_match subs (c # cs) = Some (target_texts ! 2, strftime_ymd issue_date)"
          using n0 n1 by (simp add: sb substitutions_def)
        have d: "c # cs = target_texts ! 2 @ drop (length (target_texts ! 2) - 1) cs"
          using True marker_facts(7) by (rule prefix_drop_decompose)
        have "?G (c # cs) = strftime_ymd issue_date @ ?G (drop (length (target_texts ! 2) - 1) cs)"
          by (subst d) (rule replace_in_order_at_issue)
        moreover have "replace_independently subs (drop (length (target_texts ! 2) - 1) cs)
                         = ?G (drop (length (target_texts ! 2) - 1) cs)"
          using "2.IH"(2)[OF fm refl sb] .
        ultimately show ?thesis using fm by simp
      next
        case n2: False
        have fm: "first_match subs (c # cs) = None"
          using n0 n1 n2 by (simp add: sb substitutions_def)
        have "?G (c # cs) = c # ?G cs" using s1 s2 n0 n1 n2 by (rule replace_in_order_step)
        moreover have "replace_independently subs cs = ?G cs" using "2.IH"(1)[OF fm sb] .
        ultimately show ?thesis using fm by simp
      qed
    qed
  qed
qed


lemma fill_text_in_order:
  "fill_text name gender id_card major join_date issue_date s
     = stored_text (replace_in_order name gender id_card major join_date issue_date s)"
  by (simp only: fill_text_def replace_in_order_def)

lemma disjoint_not_prefix:
  assumes "u \<noteq> []" "set u \<inter> set v = {}"
  shows "\<not> prefix u v"
proof
  assume "prefix u v"
  then have "set u \<subseteq> set v" by (rule set_mono_prefix)
  moreover have "hd u \<in> set u" using assms(1) by simp
  ultimately show False using assms(2) by auto
qed

lemma separate_disjoint:
  assumes "old \<noteq> []" "x \<noteq> []" "set old \<inter> set x = {}"
  shows "separate old x"
proof -
  have 1: "\<not> prefix (drop k old) x \<and> \<not> prefix x (drop k old)" if "k < length old" for k
  proof -
    have "drop k old \<noteq> []" using that by simp
    moreover have "set (drop k old) \<inter> set x = {}" "set x \<inter> set (drop k old) = {}"
      using assms(3) set_drop_subset[of k old] by auto
    ultimately show ?thesis using assms(2) disjoint_not_prefix by blast
  qed
  have 2: "\<not> prefix old (drop k x) \<and> \<not> prefix (drop k x) old" if "k < length x" for k
  proof -
    have "drop k x \<noteq> []" using that by simp
    moreover have "set (drop k x) \<inter> set old = {}" "set old \<inter> set (drop k x) = {}"
      using assms(3) set_drop_subset[of k x] by auto
    ultimately show ?thesis using assms(1) disjoint_not_prefix by blast
  qed
  show ?thesis unfolding separate_def list_all_iff using 1 2 by simp
qed

lemma plain_request_separate:
  assumes "set (name @ gender @ major @ id_card) \<inter> {42, 32, 24180, 26376, 26085} = {}"
  shows "separate (target_texts ! 1) (new_text name gender major id_card)"
    and "separate (target_texts ! 2) (new_text name gender major id_card)"
proof -
  have s1: "set (target_texts ! 1) \<subseteq> {42, 32, 24180, 26376, 26085}"
    and s2: "set (target_texts ! 2) \<subseteq> {42, 32, 24180, 26376, 26085}"
    by (simp_all add: target_texts_def)
  have "set (new_text name gender major id_card) \<inter> {42, 32, 24180, 26376, 26085} = {}"
    using assms by (auto simp: new_text_def)
  then have d: "set (target_texts ! 1) \<inter> set (new_text name gender major id_card) = {}"
    "set (target_texts ! 2) \<inter> set (new_text name gender major id_card) = {}"
    using s1 s2 by blast+
  show "separate (target_texts ! 1) (new_text name gender major id_card)"
    using marker_facts(4) new_text_nonempty d(1) by (rule separate_disjoint)
  show "separate (target_texts ! 2) (new_text name gender major id_card)"
    using marker_facts(7) new_text_nonempty d(2) by (rule separate_disjoint)
qed

text \<open>Lines of a file and of a text; the rows of the sheet.\<close>

lemma isspace_newline: "isspace 10"
  by (simp add: isspace_def)

lemma rstrip_newline: "rstrip (s @ [10]) = rstrip s"
  by (simp add: rstrip_def isspace_newline)

lemma strip_newline: "strip (s @ [10]) = strip s"
proof (cases "\<forall>c\<in>set s. isspace c")
  case True
  then have "dropWhile isspace (s @ [10]) = []" "dropWhile isspace s = []"
    unfolding dropWhile_eq_Nil_conv by (simp_all add: isspace_newline)
  then show ?thesis by (simp only: strip_def lstrip_def)
next
  case False
  then have "dropWhile isspace (s @ [10]) = dropWhile isspace s @ [10]"
    by (auto simp: dropWhile_append)
  then show ?thesis by (simp add: strip_def lstrip_def rstrip_newline)
qed

lemma strip_Nil: "strip [] = []"
  by (simp add: strip_def lstrip_def rstrip_def)

lemma names_of_filter: "names_of ls = filter (\<lambda>l. l \<noteq> []) (map strip ls)"
  by (induction ls) (simp_all add: names_of_def)

lemma names_of_simps:
  "names_of [] = []"
  "names_of (l # ls) = (if strip l \<noteq> [] then strip l # names_of ls else names_of ls)"
  by (simp_all add: names_of_def)

lemma file_lines_text_lines:
  "names_of (file_lines line (universal_newlines s)) = names_of (text_lines line s)"
proof (induction line s rule: text_lines.induct)
  case (1 line)
  then show ?case by (simp add: names_of_simps strip_Nil)
next
  case (2 line c)
  then show ?case by (simp add: names_of_simps strip_Nil strip_newline)
next
  case (3 line c d cs)
  then show ?case by (simp add: names_of_simps strip_newline)
qed

lemma hd_rstrip: "rstrip s \<noteq> [] \<Longrightarrow> hd (rstrip s) = hd s"
proof (induction s rule: rev_induct)
  case Nil
  then show ?case by (simp add: rstrip_def)
next
  case (snoc x xs)
  show ?case
  proof (cases "isspace x")
    case True
    then have e: "rstrip (xs @ [x]) = rstrip xs" by (simp add: rstrip_def)
    with snoc have "hd (rstrip xs) = hd xs" "xs \<noteq> []" by (auto simp: rstrip_def)
    then show ?thesis using e by simp
  next
    case False
    then show ?thesis by (simp add: rstrip_def)
  qed
qed

lemma strip_ends:
  assumes "strip s \<noteq> []"
  shows "\<not> isspace (hd (strip s))" "\<not> isspace (last (strip s))"
proof -
  let ?l = "lstrip s"
  have ne: "?l \<noteq> []" using assms by (auto simp: strip_def rstrip_def)
  have "\<not> isspace (hd ?l)" using ne unfolding lstrip_def by (rule hd_dropWhile)
  moreover have "hd (strip s) = hd ?l" using assms unfolding strip_def by (rule hd_rstrip)
  ultimately show "\<not> isspace (hd (strip s))" by simp
  have r: "dropWhile isspace (rev ?l) \<noteq> []" using assms by (simp add: strip_def rstrip_def)
  have "last (strip s) = hd (dropWhile isspace (rev ?l))"
    using r by (simp add: strip_def rstrip_def last_rev)
  moreover have "\<not> isspace (hd (dropWhile isspace (rev ?l)))" using r by (rule hd_dropWhile)
  ultimately show "\<not> isspace (last (strip s))" by simp
qed

lemma read_name_list_example:
  "read_name_list [32, 24352, 19977, 32, 13, 10, 10, 9, 12288, 10, 26446, 22235, 13, 29579, 20116]
     = [[24352, 19977], [26446, 22235], [29579, 20116]]"
  by code_simp

lemma read_rows_last:
  assumes "list_all has_columns df"
  shows "read_rows m df
           = Inr (\<lambda>name. if rows_named name df = [] then m name
                          else Some (row_info (last (rows_named name df))))"
  using assms
proof (induction df arbitrary: m)
  case Nil
  then show ?case by (simp add: rows_named_def)
next
  case (Cons r df)
  from Cons.prems obtain n g i mj where
    r: "r col_name = Some n" "r col_gender = Some g" "r col_id_card = Some i"
       "r col_major = Some mj"
    by (auto simp: has_columns_def)
  have info: "row_info r = \<lparr>info_gender = g, info_id_card = i, info_major = mj\<rparr>"
    by (simp add: row_info_def r)
  have "read_rows m (r # df) = read_rows (m(n \<mapsto> row_info r)) df"
    by (simp add: row_get_def r info)
  also have "\<dots> = Inr (\<lambda>name. if rows_named name df = [] then (m(n \<mapsto> row_info r)) name
                          else Some (row_info (last (rows_named name df))))"
    using Cons.IH Cons.prems by simp
  also have "(\<lambda>name. if rows_named name df = [] then (m(n \<mapsto> row_info r)) name
                          else Some (row_info (last (rows_named name df))))
           = (\<lambda>name. if rows_named name (r # df) = [] then m name
                          else Some (row_info (last (rows_named name (r # df)))))"
    by (rule ext) (simp add: rows_named_def r)
  finally show ?case .
qed














section \<open>Properties of the business-day pools\<close>

text \<open>
  C3. The month of \<open>get_workdays\<close> is July 2025, which has \<open>days_in_month 2025 7\<close> days.
  The call returns (it raises nothing), its first pool is exactly the Monday-to-Friday
  dates among the days 1 to 15 of the month and its second pool exactly those among the
  days 16 to the last; every date of the two pools has a weekday index from 0 to 4, none
  is a Saturday or a Sunday, the two pools together are all the Monday-to-Friday dates of
  the month, and each pool is in chronological order.
\<close>

theorem workdays_partition_month:
  "(let first_half = filter is_business_day (month_days 2025 7 1 15);
        second_half = filter is_business_day (month_days 2025 7 16 (days_in_month 2025 7))
    in get_workdays = Inr (first_half, second_half)
       \<and> list_all is_business_day (first_half @ second_half)
       \<and> list_all (\<lambda>dt. \<not> is_weekend dt) (first_half @ second_half)
       \<and> first_half @ second_half
           = filter is_business_day (month_days 2025 7 1 (days_in_month 2025 7))
       \<and> chronological first_half \<and> chronological second_half)"
  by code_simp

text \<open>
  C4. For July 2025 the first pool has exactly 11 dates, the Monday-to-Friday dates among
  1 to 15 July (the days 1-4, 7-11, 14 and 15; the weekend days 5, 6, 12 and 13 of that
  half are left out), and the second pool is exactly the Monday-to-Friday dates among 16
  to 31 July.
\<close>

theorem workdays_july_2025:
  "get_workdays
     = Inr (filter is_business_day (month_days 2025 7 1 15),
            filter is_business_day (month_days 2025 7 16 31))
   \<and> length (filter is_business_day (month_days 2025 7 1 15)) = 11
   \<and> map day (filter is_business_day (month_days 2025 7 1 15))
       = [1, 2, 3, 4, 7, 8, 9, 10, 11, 14, 15]
   \<and> map day (filter is_weekend (month_days 2025 7 1 15)) = [5, 6, 12, 13]
   \<and> map day (filter is_business_day (month_days 2025 7 16 31))
       = [16, 17, 18, 21, 22, 23, 24, 25, 28, 29, 30, 31]"
  by code_simp

section \<open>Properties of the template filler\<close>

text \<open>
  C2. For every document and every request, a paragraph whose text contains none of the
  three markers comes out of \<open>replace_placeholders\<close> exactly as it went in: the same
  runs with the same texts and the same fonts (name, size, east-Asian name and every other
  attribute), and the same paragraph properties; the document keeps its length, so the
  paragraph stays where it was. Hence the font is set on matching paragraphs only.
\<close>

theorem unmarked_paragraph_untouched:
  assumes "i < length doc"
      and "\<not> list_ex (\<lambda>text. contains text (para_text (doc ! i))) target_texts"
  shows "length (replace_placeholders doc name gender id_card major join_date issue_date)
           = length doc
         \<and> replace_placeholders doc name gender id_card major join_date issue_date ! i
             = doc ! i"
  using assms
  by (simp add: length_replace_placeholders nth_replace_placeholders fill_paragraph_unmatched)

theorem unmarked_paragraph_untouched_witness:
  "0 < length sample_doc
   \<and> \<not> list_ex (\<lambda>text. contains text (para_text (sample_doc ! 0))) target_texts
   \<and> replace_placeholders sample_doc example_name example_gender example_id_card example_major
        example_join_date example_issue_date ! 0
       = sample_doc ! 0"
proof -
  have a: "0 < length sample_doc" by code_simp
  have b: "\<not> list_ex (\<lambda>text. contains text (para_text (sample_doc ! 0))) target_texts"
    by code_simp
  from a b unmarked_paragraph_untouched[OF a b] show ?thesis by blast
qed

text \<open>
  C10. For every document and every request, a paragraph whose text contains at least one
  of the three markers ends up with exactly one run, whatever runs and run formatting it
  had: the run holds the filled text, its font name and its east-Asian font name are the
  family \<open>songti\<close>, its size is 16 points (203200 English Metric Units), and no other
  run formatting is left.
\<close>

theorem matched_paragraph_one_run:
  assumes "i < length doc"
      and "list_ex (\<lambda>text. contains text (para_text (doc ! i))) target_texts"
  shows "runs (replace_placeholders doc name gender id_card major join_date issue_date ! i)
           = [\<lparr>run_text = fill_text name gender id_card major join_date issue_date
                            (para_text (doc ! i)),
               run_font = \<lparr>font_name = Some songti, font_size = Some (Pt 16),
                           east_asia = Some songti, bold = None\<rparr>\<rparr>]
         \<and> Pt 16 = 203200"
proof -
  let ?p3 = "replace_in_para (target_texts ! 2) (strftime_ymd issue_date)
               (replace_in_para (target_texts ! 1) (strftime_ymd join_date)
                  (replace_in_para (target_texts ! 0) (new_text name gender major id_card)
                     (doc ! i)))"
  let ?res = "fill_paragraph name gender id_card major join_date issue_date (doc ! i)"
  have any: "contains (target_texts ! 0) (para_text (doc ! i))
               \<or> contains (target_texts ! 1) (para_text (doc ! i))
               \<or> contains (target_texts ! 2) (para_text (doc ! i))"
    using assms(2) by (simp only: list_ex_markers)
  have "one_plain_run ?p3" using any by (rule three_replaces_one_run)
  then have r3: "runs ?p3 = [\<lparr>run_text = para_text ?p3, run_font = plain_font\<rparr>]"
    by (simp only: one_plain_run_def)
  have res: "?res = ?p3\<lparr>runs := map set_run_font (runs ?p3)\<rparr>"
    using fill_paragraph_matching[OF assms(2)] by (simp only: Let_def)
  have "para_text ?res = para_text ?p3" unfolding res by (rule set_run_font_text)
  then have t3: "para_text ?p3
                   = fill_text name gender id_card major join_date issue_date (para_text (doc ! i))"
    using fill_paragraph_text[OF assms(2)] by simp
  have "runs ?res = map set_run_font (runs ?p3)" unfolding res by simp
  also have "\<dots> = [set_run_font \<lparr>run_text = para_text ?p3, run_font = plain_font\<rparr>]"
    unfolding r3 by simp
  finally have "runs ?res
      = [\<lparr>run_text = fill_text name gender id_card major join_date issue_date
                       (para_text (doc ! i)),
          run_font = \<lparr>font_name = Some songti, font_size = Some (Pt 16),
                      east_asia = Some songti, bold = None\<rparr>\<rparr>]"
    unfolding t3 by (simp add: set_run_font_def plain_font_def)
  then show ?thesis using assms(1) by (simp add: nth_replace_placeholders Pt_def)
qed



theorem matched_paragraph_one_run_witness:
  "1 < length sample_doc
   \<and> list_ex (\<lambda>text. contains text (para_text (sample_doc ! 1))) target_texts
   \<and> runs (replace_placeholders sample_doc example_name example_gender example_id_card example_major
        example_join_date example_issue_date ! 1)
      = [\<lparr>run_text = [20110, 50, 48, 50, 53, 24180, 48, 55, 26376, 48, 51, 26085, 20837, 32844],
          run_font = \<lparr>font_name = Some [23435, 20307], font_size = Some 203200,
                      east_asia = Some [23435, 20307], bold = None\<rparr>\<rparr>]"
proof -
  have a: "1 < length sample_doc" by code_simp
  have b: "list_ex (\<lambda>text. contains text (para_text (sample_doc ! 1))) target_texts"
    by code_simp
  have c: "fill_text example_name example_gender example_id_card example_major
             example_join_date example_issue_date (para_text (sample_doc ! 1))
           = [20110, 50, 48, 50, 53, 24180, 48, 55, 26376, 48, 51, 26085, 20837, 32844]"
    by code_simp
  have d: "songti = [23435, 20307]" "Pt 16 = 203200" by (simp_all add: songti_def Pt_def)
  from matched_paragraph_one_run[OF a b, of example_name example_gender example_id_card
      example_major example_join_date example_issue_date]
  have "runs (replace_placeholders sample_doc example_name example_gender example_id_card
          example_major example_join_date example_issue_date ! 1)
      = [\<lparr>run_text = [20110, 50, 48, 50, 53, 24180, 48, 55, 26376, 48, 51, 26085, 20837, 32844],
          run_font = \<lparr>font_name = Some [23435, 20307], font_size = Some 203200,
                      east_asia = Some [23435, 20307], bold = None\<rparr>\<rparr>]"
    unfolding c d by (rule conjunct1)
  with a b show ?thesis by blast
qed


text \<open>
  C1. For every document, with the request of the example (\<open>example_name\<close>,
  \<open>example_gender\<close>, \<open>example_major\<close>, \<open>example_id_card\<close>, 3 July 2025, 17 July 2025):
  wherever the text of a paragraph holds the identity marker, the join-date marker or the
  issue-date marker (marker \<open>k\<close> between any texts \<open>a\<close> and \<open>b\<close>), the filled paragraph
  holds in its place exactly the text the specification quotes for it (\<open>expected_texts ! k\<close>),
  between what the filler makes of \<open>a\<close> and of \<open>b\<close>; and a surrounding text without
  marker stays as it is stored.
\<close>

theorem example_request_fills_markers:
  assumes "i < length doc" and "k < 3"
      and "para_text (doc ! i) = a @ target_texts ! k @ b"
  shows "para_text
           (replace_placeholders doc example_name example_gender example_id_card
              example_major example_join_date example_issue_date ! i)
           = fill_text example_name example_gender example_id_card example_major
               example_join_date example_issue_date a
             @ expected_texts ! k
             @ fill_text example_name example_gender example_id_card example_major
                 example_join_date example_issue_date b
         \<and> (\<not> list_ex (\<lambda>text. contains text a) target_texts \<longrightarrow>
              fill_text example_name example_gender example_id_card example_major
                example_join_date example_issue_date a = stored_text a)
         \<and> (\<not> list_ex (\<lambda>text. contains text b) target_texts \<longrightarrow>
              fill_text example_name example_gender example_id_card example_major
                example_join_date example_issue_date b = stored_text b)"
proof -
  let ?F = "fill_text example_name example_gender example_id_card example_major
              example_join_date example_issue_date"
  have any: "list_ex (\<lambda>text. contains text (para_text (doc ! i))) target_texts"
    unfolding assms(3) using assms(2) by (rule contains_marker_any)
  have "para_text
          (replace_placeholders doc example_name example_gender example_id_card
             example_major example_join_date example_issue_date ! i)
        = ?F (a @ target_texts ! k @ b)"
    using assms(1) fill_paragraph_text[OF any] by (simp add: nth_replace_placeholders assms(3))
  moreover have "?F (a @ target_texts ! k @ b) = ?F a @ expected_texts ! k @ ?F b"
  proof -
    have "k = 0 \<or> k = 1 \<or> k = 2" using assms(2) by arith
    then show ?thesis
    proof (elim disjE)
      assume k: "k = 0"
      have "?F (a @ target_texts ! 0 @ b)
              = ?F a @ stored_text (new_text example_name example_gender example_major
                                      example_id_card) @ ?F b"
        by (rule fill_text_split_identity)
           (simp_all only: example_texts example_identity_separate)
      then show ?thesis unfolding k by (simp only: example_texts example_identity_separate)
    next
      assume k: "k = 1"
      show ?thesis unfolding k fill_text_split_join by (simp only: example_texts)
    next
      assume k: "k = 2"
      show ?thesis unfolding k fill_text_split_issue by (simp only: example_texts)
    qed
  qed
  ultimately show ?thesis by (simp add: fill_text_unmarked)
qed

theorem example_request_fills_markers_witness:
  "para_text
     (replace_placeholders example_template example_name example_gender example_id_card
        example_major example_join_date example_issue_date ! 0)
     = [20857, 35777, 26126] @ expected_texts ! 0 @ [12290]
   \<and> para_text
       (replace_placeholders example_template example_name example_gender example_id_card
          example_major example_join_date example_issue_date ! 1)
       = [20110] @ expected_texts ! 1 @ [20837, 32844]
   \<and> para_text
       (replace_placeholders example_template example_name example_gender example_id_card
          example_major example_join_date example_issue_date ! 2)
       = expected_texts ! 2"
proof -
  let ?F = "fill_text example_name example_gender example_id_card example_major
              example_join_date example_issue_date"
  have len: "0 < length example_template" "1 < length example_template"
    "2 < length example_template"
    by code_simp+
  have k: "(0::nat) < 3" "(1::nat) < 3" "(2::nat) < 3" by simp_all
  have t0: "para_text (example_template ! 0) = [20857, 35777, 26126] @ target_texts ! 0 @ [12290]"
    by code_simp
  have t1: "para_text (example_template ! 1) = [20110] @ target_texts ! 1 @ [20837, 32844]"
    by code_simp
  have t2: "para_text (example_template ! 2) = [] @ target_texts ! 2 @ []"
    by code_simp
  have f: "?F [20857, 35777, 26126] = [20857, 35777, 26126]" "?F [12290] = [12290]"
    "?F [20110] = [20110]" "?F [20837, 32844] = [20837, 32844]" "?F [] = []"
    by code_simp+
  show ?thesis
    using example_request_fills_markers[OF len(1) k(1) t0]
      example_request_fills_markers[OF len(2) k(2) t1]
      example_request_fills_markers[OF len(3) k(3) t2]
    by (simp only: f append_Nil append_Nil2 simp_thms)
qed


text \<open>
  C9. For every document and request, in a paragraph that holds the identity marker
  (between any texts \<open>a\<close> and \<open>b\<close>) the three markers are tried in the fixed order
  identity block, join date, issue date, each against the text the earlier assignments
  left. So when the identity sentence built from the request itself holds the join-date
  or the issue-date marker (marker \<open>k\<close>, between \<open>u\<close> and \<open>v\<close>), that spliced-in marker is
  replaced again: the filled paragraph holds the formatted join date, or issue date, in
  its place.
\<close>

theorem later_marker_in_identity_replaced:
  assumes "i < length doc"
      and "para_text (doc ! i) = a @ target_texts ! 0 @ b"
      and "k = 1 \<or> k = 2"
      and "new_text name gender major id_card = u @ target_texts ! k @ v"
  shows "para_text (replace_placeholders doc name gender id_card major join_date issue_date ! i)
           = guarded_replace (target_texts ! 2) (strftime_ymd issue_date)
               (guarded_replace (target_texts ! 1) (strftime_ymd join_date)
                  (guarded_replace (target_texts ! 0) (new_text name gender major id_card)
                     (para_text (doc ! i))))
         \<and> para_text (replace_placeholders doc name gender id_card major join_date issue_date ! i)
           = fill_later join_date issue_date
               (str_replace a (target_texts ! 0) (new_text name gender major id_card) @ u)
             @ snd (substitutions name gender id_card major join_date issue_date ! k)
             @ fill_later join_date issue_date
                 (v @ str_replace b (target_texts ! 0) (new_text name gender major id_card))"
proof -
  have "(0::nat) < 3" by simp
  then have any: "list_ex (\<lambda>text. contains text (para_text (doc ! i))) target_texts"
    unfolding assms(2) by (rule contains_marker_any)
  have res: "replace_placeholders doc name gender id_card major join_date issue_date ! i
               = fill_paragraph name gender id_card major join_date issue_date (doc ! i)"
    using assms(1) by (rule nth_replace_placeholders)
  have steps: "para_text (replace_placeholders doc name gender id_card major join_date issue_date ! i)
           = guarded_replace (target_texts ! 2) (strftime_ymd issue_date)
               (guarded_replace (target_texts ! 1) (strftime_ymd join_date)
                  (guarded_replace (target_texts ! 0) (new_text name gender major id_card)
                     (para_text (doc ! i))))"
    unfolding res using any by (rule fill_paragraph_text_steps)
  have filled: "para_text (replace_placeholders doc name gender id_card major join_date issue_date ! i)
           = fill_text name gender id_card major join_date issue_date (a @ target_texts ! 0 @ b)"
    unfolding res fill_paragraph_text[OF any] assms(2) ..
  from assms(3) have "fill_text name gender id_card major join_date issue_date
                        (a @ target_texts ! 0 @ b)
           = fill_later join_date issue_date
               (str_replace a (target_texts ! 0) (new_text name gender major id_card) @ u)
             @ snd (substitutions name gender id_card major join_date issue_date ! k)
             @ fill_later join_date issue_date
                 (v @ str_replace b (target_texts ! 0) (new_text name gender major id_card))"
  proof
    assume k: "k = 1"
    show ?thesis unfolding k substitutions_snd
      using assms(4)[unfolded k] by (rule fill_text_spliced_join)
  next
    assume k: "k = 2"
    show ?thesis unfolding k substitutions_snd
      using assms(4)[unfolded k] by (rule fill_text_spliced_issue)
  qed
  with steps filled show ?thesis by simp
qed


theorem later_marker_in_identity_replaced_witness:
  "para_text (example_template ! 0) = [20857, 35777, 26126] @ target_texts ! 0 @ [12290]
   \<and> new_text (target_texts ! 1) example_gender example_major example_id_card
       = [] @ target_texts ! 1 @ drop 2 (expected_texts ! 0)
   \<and> para_text
       (replace_placeholders example_template (target_texts ! 1) example_gender example_id_card
          example_major example_join_date example_issue_date ! 0)
       = [20857, 35777, 26126] @ expected_texts ! 1 @ drop 2 (expected_texts ! 0) @ [12290]"
proof -
  let ?ID = "new_text (target_texts ! 1) example_gender example_major example_id_card"
  have h1: "0 < length example_template" by code_simp
  have h2: "para_text (example_template ! 0) = [20857, 35777, 26126] @ target_texts ! 0 @ [12290]"
    by code_simp
  have h3: "(1::nat) = 1 \<or> (1::nat) = 2" by simp
  have h4: "?ID = [] @ target_texts ! 1 @ drop 2 (expected_texts ! 0)"
    by code_simp
  have f1: "fill_later example_join_date example_issue_date
              (str_replace [20857, 35777, 26126] (target_texts ! 0) ?ID @ [])
            = [20857, 35777, 26126]"
    by code_simp
  have f2: "snd (substitutions (target_texts ! 1) example_gender example_id_card example_major
                   example_join_date example_issue_date ! 1) = expected_texts ! 1"
    by code_simp
  have f3: "fill_later example_join_date example_issue_date
              (drop 2 (expected_texts ! 0) @ str_replace [12290] (target_texts ! 0) ?ID)
            = drop 2 (expected_texts ! 0) @ [12290]"
    by code_simp
  from later_marker_in_identity_replaced[OF h1 h2 h3 h4, of example_join_date example_issue_date]
  have "para_text
       (replace_placeholders example_template (target_texts ! 1) example_gender example_id_card
          example_major example_join_date example_issue_date ! 0)
       = [20857, 35777, 26126] @ expected_texts ! 1 @ drop 2 (expected_texts ! 0) @ [12290]"
    unfolding f1 f2 f3 by (rule conjunct2)
  with h2 h4 show ?thesis by blast
qed

text \<open>
  C5, as the code has it. For every document and request, in a paragraph whose text holds
  one or more of the markers the three replacements are applied one after the other
  (identity block, join date, issue date), each to the text the earlier ones produced.
  The result is the one of independent replacement (every marker of the original text
  replaced by its own replacement, nothing replaced twice) whenever the identity sentence
  built from the request is \<open>separate\<close> from the join-date and the issue-date marker,
  that is, neither contains nor overlaps them.
\<close>

theorem replacements_in_order:
  assumes "i < length doc"
      and "list_ex (\<lambda>text. contains text (para_text (doc ! i))) target_texts"
  shows "para_text (replace_placeholders doc name gender id_card major join_date issue_date ! i)
           = stored_text
               (replace_in_order name gender id_card major join_date issue_date
                  (para_text (doc ! i)))
         \<and> (separate (target_texts ! 1) (new_text name gender major id_card)
              \<and> separate (target_texts ! 2) (new_text name gender major id_card)
            \<longrightarrow> replace_in_order name gender id_card major join_date issue_date
                  (para_text (doc ! i))
                = replace_independently
                    (substitutions name gender id_card major join_date issue_date)
                    (para_text (doc ! i)))"
proof -
  have "para_text (replace_placeholders doc name gender id_card major join_date issue_date ! i)
          = fill_text name gender id_card major join_date issue_date (para_text (doc ! i))"
    using assms(1) fill_paragraph_text[OF assms(2)] by (simp add: nth_replace_placeholders)
  then show ?thesis
    using replace_in_order_independent[OF _ _ refl, of name gender major id_card]
    by (simp add: fill_text_in_order)
qed

theorem replacements_in_order_witness:
  "0 < length combined_template
   \<and> list_ex (\<lambda>text. contains text (para_text (combined_template ! 0))) target_texts
   \<and> separate (target_texts ! 1)
       (new_text example_name example_gender example_major example_id_card)
   \<and> separate (target_texts ! 2)
       (new_text example_name example_gender example_major example_id_card)
   \<and> para_text
       (replace_placeholders combined_template example_name example_gender example_id_card
          example_major example_join_date example_issue_date ! 0)
       = [20857] @ expected_texts ! 0 @ [65292] @ expected_texts ! 1 @ [12290]
   \<and> replace_independently
       (substitutions example_name example_gender example_id_card example_major
          example_join_date example_issue_date)
       (para_text (combined_template ! 0))
       = [20857] @ expected_texts ! 0 @ [65292] @ expected_texts ! 1 @ [12290]"
proof -
  have h1: "0 < length combined_template" by code_simp
  have h2: "list_ex (\<lambda>text. contains text (para_text (combined_template ! 0))) target_texts"
    by code_simp
  have h3: "separate (target_texts ! 1)
              (new_text example_name example_gender example_major example_id_card)"
    "separate (target_texts ! 2)
       (new_text example_name example_gender example_major example_id_card)"
    by code_simp+
  have v: "replace_independently
       (substitutions example_name example_gender example_id_card example_major
          example_join_date example_issue_date)
       (para_text (combined_template ! 0))
       = [20857] @ expected_texts ! 0 @ [65292] @ expected_texts ! 1 @ [12290]"
    by code_simp
  have st: "stored_text ([20857] @ expected_texts ! 0 @ [65292] @ expected_texts ! 1 @ [12290])
            = [20857] @ expected_texts ! 0 @ [65292] @ expected_texts ! 1 @ [12290]"
    by code_simp
  from replacements_in_order[OF h1 h2, of example_name example_gender example_id_card
      example_major example_join_date example_issue_date] h3
  have "para_text
       (replace_placeholders combined_template example_name example_gender example_id_card
          example_major example_join_date example_issue_date ! 0)
       = [20857] @ expected_texts ! 0 @ [65292] @ expected_texts ! 1 @ [12290]"
    using v st by metis
  with h1 h2 h3 v show ?thesis by blast
qed

text \<open>
  C5 as stated fails: in the paragraph of \<open>combined_template\<close>, which holds the identity
  marker and the join-date marker, a request whose name is the text of the join-date
  marker gets the formatted join date where independent replacement leaves the name.
\<close>

theorem replacements_independent_counterexample:
  "contains (target_texts ! 0) (para_text (combined_template ! 0))
   \<and> contains (target_texts ! 1) (para_text (combined_template ! 0))
   \<and> para_text
       (replace_placeholders combined_template (target_texts ! 1) example_gender
          example_id_card example_major example_join_date example_issue_date ! 0)
       = [20857] @ expected_texts ! 1 @ drop 2 (expected_texts ! 0) @ [65292]
           @ expected_texts ! 1 @ [12290]
   \<and> stored_text
       (replace_independently
          (substitutions (target_texts ! 1) example_gender example_id_card example_major
             example_join_date example_issue_date)
          (para_text (combined_template ! 0)))
       = [20857] @ target_texts ! 1 @ drop 2 (expected_texts ! 0) @ [65292]
           @ expected_texts ! 1 @ [12290]
   \<and> para_text
       (replace_placeholders combined_template (target_texts ! 1) example_gender
          example_id_card example_major example_join_date example_issue_date ! 0)
       \<noteq> stored_text
           (replace_independently
              (substitutions (target_texts ! 1) example_gender example_id_card example_major
                 example_join_date example_issue_date)
              (para_text (combined_template ! 0)))"
  by code_simp

section \<open>Properties of the roster and of the directory\<close>

text \<open>
  C7. For every text, \<open>read_name_list\<close> returns the lines of the text, each stripped of
  the white space around it, without the lines that are empty after stripping, in the
  order of the text; so every name it returns is non-empty and neither begins nor ends
  with a white-space character.
\<close>

theorem roster_is_trimmed_nonempty_lines:
  "read_name_list content = filter (\<lambda>l. l \<noteq> []) (map strip (text_lines [] content))
   \<and> list_all (\<lambda>name. name \<noteq> [] \<and> \<not> isspace (hd name) \<and> \<not> isspace (last name))
       (read_name_list content)"
proof -
  have e: "read_name_list content = filter (\<lambda>l. l \<noteq> []) (map strip (text_lines [] content))"
    using file_lines_text_lines[of "[]" content]
    by (simp add: read_name_list_def names_of_def[symmetric] names_of_filter)
  have "list_all (\<lambda>name. name \<noteq> [] \<and> \<not> isspace (hd name) \<and> \<not> isspace (last name))
          (filter (\<lambda>l. l \<noteq> []) (map strip (text_lines [] content)))"
    by (auto simp: list_all_iff strip_ends)
  with e show ?thesis by simp
qed

text \<open>
  C8. For every sheet whose rows have the four columns, \<open>read_student_info\<close> raises
  nothing, whether or not names repeat, and maps every name that some row bears to the
  record (gender, identity number, major) of the last row bearing it.
\<close>

theorem directory_last_row_wins:
  assumes "list_all has_columns df"
  shows "read_student_info df = Inr (last_row_wins df)"
proof -
  have "last_row_wins df = (\<lambda>name. if rows_named name df = [] then Map.empty name
                          else Some (row_info (last (rows_named name df))))"
    by (rule ext) (simp add: last_row_wins_def)
  then show ?thesis using read_rows_last[OF assms, of Map.empty]
    by (simp add: read_student_info_def)
qed


theorem directory_last_row_wins_witness:
  "list_all has_columns sample_rows
   \<and> length (rows_named example_name sample_rows) = 2
   \<and> read_student_info sample_rows = Inr (last_row_wins sample_rows)
   \<and> last_row_wins sample_rows example_name
       = Some \<lparr>info_gender = example_gender, info_id_card = example_id_card,
                info_major = example_major\<rparr>"
proof -
  have h: "list_all has_columns sample_rows" by code_simp
  have n: "length (rows_named example_name sample_rows) = 2" by code_simp
  have v: "last_row_wins sample_rows example_name
       = Some \<lparr>info_gender = example_gender, info_id_card = example_id_card,
                info_major = example_major\<rparr>"
    by code_simp
  from directory_last_row_wins[OF h] h n v show ?thesis by blast
qed

section \<open>Properties of the run over the roster\<close>




end
